theory Spec2Isabelle
  imports Complex_Main "HOL-Library.AList"
begin

section \<open>Character-level text generation: vocabulary, greedy and sampled decoding\<close>

text \<open>
  The notebook on generative networks builds a character vocabulary with the Keras
  \<^verbatim>\<open>Tokenizer\<close>, adds an end-of-sequence token, builds a reverse map, and defines
  \<^verbatim>\<open>decode\<close>, \<^verbatim>\<open>generate\<close> and \<^verbatim>\<open>generate_soft\<close>. The functions read
  notebook globals, allocate and mutate Python lists, and call a model object and the
  process-wide random generator. All of this is written out as explicit state: a
  \<open>world\<close> holds the globals, a store of list objects, the state of the model object
  and the state of the random generator.
\<close>

subsection \<open>Errors, tensors, the world\<close>

text \<open>
  The exceptions the generation code can end with: the model object raises
  (\<open>PredictorFailure\<close>), \<^verbatim>\<open>[0]\<close> or \<^verbatim>\<open>[-1]\<close> is applied to an empty result
  (\<open>IndexError\<close>), \<^verbatim>\<open>tf.argmax\<close> is applied to an empty vector
  (\<open>InvalidArgument\<close>), the multinomial draw of the sampling decoder raises
  (\<open>SamplingFailure\<close>). The source defines no exception of its own and checks none
  of its arguments.
\<close>

datatype error = PredictorFailure | IndexError | InvalidArgument | SamplingFailure

text \<open>
  Tensors are nested lists of numbers. Floating-point values are read as reals: the
  greedy decoder only compares them. A Python dictionary is an association list in
  insertion order with distinct keys; a Python \<^verbatim>\<open>str\<close> is a \<open>string\<close>, one
  \<open>char\<close> standing for one character.
\<close>

type_synonym tensor1 = "real list"
type_synonym tensor2 = "real list list"
type_synonym tensor3 = "real list list list"

type_synonym addr = nat

record ('m, 'r) world =
  word_index :: "(string \<times> nat) list"
  eos_token :: nat
  vocab_size :: nat
  reverse_map :: "(nat \<times> string) list"
  heap :: "addr \<Rightarrow> nat list"
  next_addr :: addr
  model_state :: 'm
  rng_state :: 'r

text \<open>
  The model is an opaque callable object: from its own state and a batch of one-hot
  sequences it returns a batch of per-position distributions, or raises (\<open>None\<close>).
\<close>

type_synonym 'm predictor = "'m \<Rightarrow> tensor3 \<Rightarrow> tensor3 option \<times> 'm"

text \<open>
  The numeric lines of \<^verbatim>\<open>generate_soft\<close> call four library operations, which
  are parameters: \<open>rescale\<close> is
  \<^verbatim>\<open>tf.exp(tf.math.log(out)/temperature).numpy().astype(np.float64)\<close>,
  \<open>np_sum\<close> is \<^verbatim>\<open>np.sum\<close>, \<open>np_divide\<close> is the division of an array by a
  number, and \<open>draw\<close> is \<^verbatim>\<open>np.argmax(np.random.multinomial(1,probs,1))\<close>, which
  works on the state of the random generator and returns the drawn index or raises
  (\<open>None\<close>). The types of the arrays (\<open>'v\<close>) and of the sum (\<open>'s\<close>) are
  parameters too. The first three do not raise: the arithmetic of the libraries
  answers a division by zero with a special value and a warning.
\<close>

record ('v, 's, 'r) numerics =
  rescale :: "tensor1 \<Rightarrow> real \<Rightarrow> 'v"
  np_sum :: "'v \<Rightarrow> 's"
  np_divide :: "'v \<Rightarrow> 's \<Rightarrow> 'v"
  draw :: "'r \<Rightarrow> 'v \<Rightarrow> nat option \<times> 'r"

subsection \<open>The vocabulary cells\<close>

text \<open>
  \<^verbatim>\<open>tokenizer.word_index\<close> after \<^verbatim>\<open>fit_on_texts\<close> is a table built by the library:
  it is a parameter \<open>wi0\<close>. What the library guarantees for a character-level
  tokenizer is \<open>char_index_ok\<close>: the keys are distinct one-character strings and the
  values are distinct indices from \<open>1\<close> to the number of keys.
\<close>

definition char_index_ok :: "(string \<times> nat) list \<Rightarrow> bool" where
  "char_index_ok wi0 \<longleftrightarrow>
     distinct (map fst wi0) \<and> (\<forall>k \<in> set (map fst wi0). length k = 1) \<and>
     distinct (map snd wi0) \<and> (\<forall>v \<in> set (map snd wi0). 1 \<le> v \<and> v \<le> length wi0)"

text \<open>
  \<^verbatim>\<open>reverse_map = {val:key for key, val in tokenizer.word_index.items()}\<close>: the items
  are visited in order and a later item overwrites an earlier one with the same value.
\<close>

definition build_reverse_map :: "(string \<times> nat) list \<Rightarrow> (nat \<times> string) list" where
  "build_reverse_map wi = fold (\<lambda>(key, val) rm. AList.update val key rm) wi []"

text \<open>
  The state after the cells
  \<^verbatim>\<open>eos_token = len(tokenizer.word_index)+1\<close>,
  \<^verbatim>\<open>tokenizer.word_index['<eos>'] = eos_token\<close>,
  \<^verbatim>\<open>vocab_size = eos_token + 1\<close> and the reverse-map cell, with no list object
  allocated yet.
\<close>

definition setup_world :: "(string \<times> nat) list \<Rightarrow> 'm \<Rightarrow> 'r \<Rightarrow> ('m, 'r) world" where
  "setup_world wi0 m r =
     (let eos = length wi0 + 1;
          wi = AList.update ''<eos>'' eos wi0
      in \<lparr> word_index = wi, eos_token = eos, vocab_size = eos + 1,
           reverse_map = build_reverse_map wi,
           heap = (\<lambda>_. []), next_addr = 0, model_state = m, rng_state = r \<rparr>)"

definition vocabulary ::
  "('m, 'r) world \<Rightarrow> (string \<times> nat) list \<times> nat \<times> nat \<times> (nat \<times> string) list" where
  "vocabulary w = (word_index w, eos_token w, vocab_size w, reverse_map w)"

subsection \<open>Encoding and decoding\<close>

text \<open>
  Modelled from the spec: \<^verbatim>\<open>tokenizer.texts_to_sequences\<close> is the library's; with
  \<^verbatim>\<open>char_level=True\<close>, \<^verbatim>\<open>lower=False\<close> and no out-of-vocabulary token it looks
  every character of the text up in \<^verbatim>\<open>word_index\<close> and skips the characters that
  have no entry.
\<close>

definition encode_chars :: "(string \<times> nat) list \<Rightarrow> string \<Rightarrow> nat list" where
  "encode_chars wi text =
     concat (map (\<lambda>c. case map_of wi [c] of None \<Rightarrow> [] | Some i \<Rightarrow> [i]) text)"

definition alloc :: "nat list \<Rightarrow> ('m, 'r) world \<Rightarrow> addr \<times> ('m, 'r) world" where
  "alloc xs w =
     (next_addr w, w\<lparr> heap := (heap w)(next_addr w := xs), next_addr := Suc (next_addr w) \<rparr>)"

text \<open>\<^verbatim>\<open>tokenizer.texts_to_sequences([start])[0]\<close>: a fresh list object.\<close>

definition texts_to_sequences :: "string \<Rightarrow> ('m, 'r) world \<Rightarrow> addr \<times> ('m, 'r) world" where
  "texts_to_sequences text w = alloc (encode_chars (word_index w) text) w"

text \<open>\<^verbatim>\<open>''.join([reverse_map.get(t,'') for t in x])\<close>\<close>

definition decode :: "('m, 'r) world \<Rightarrow> nat list \<Rightarrow> string" where
  "decode w x =
     concat (map (\<lambda>t. case map_of (reverse_map w) t of None \<Rightarrow> '''' | Some s \<Rightarrow> s) x)"

subsection \<open>Tensor operations\<close>

text \<open>\<^verbatim>\<open>tf.one_hot(inp, vocab_size)\<close>: an index outside the depth gives a zero row.\<close>

definition one_hot :: "nat list \<Rightarrow> nat \<Rightarrow> tensor2" where
  "one_hot indices depth =
     map (\<lambda>t. map (\<lambda>j. if j = t then 1 else 0) [0..<depth]) indices"

definition expand_dims :: "tensor2 \<Rightarrow> tensor3" where
  "expand_dims x = [x]"

text \<open>
  Modelled from the spec: \<^verbatim>\<open>tf.argmax\<close> is the library's; it returns the index of
  the largest entry, the lowest such index on ties, and rejects an empty vector.
\<close>

fun argmax_from :: "tensor1 \<Rightarrow> nat \<Rightarrow> nat \<Rightarrow> real \<Rightarrow> nat" where
  "argmax_from [] i best v = best"
| "argmax_from (x # xs) i best v =
     (if v < x then argmax_from xs (Suc i) i x else argmax_from xs (Suc i) best v)"

definition argmax :: "tensor1 \<Rightarrow> nat option" where
  "argmax out = (case out of [] \<Rightarrow> None | x # xs \<Rightarrow> Some (argmax_from xs 1 0 x))"

subsection \<open>The generation loops\<close>

text \<open>
  \<^verbatim>\<open>out = model(tf.expand_dims(tf.one_hot(inp,vocab_size),0))[0][-1]\<close>: the list
  object bound to \<^verbatim>\<open>inp\<close> is read from the store, the model is called, and the last
  position of the first batch entry is selected.
\<close>

definition predict_last ::
  "'m predictor \<Rightarrow> addr \<Rightarrow> ('m, 'r) world \<Rightarrow> (error + tensor1) \<times> ('m, 'r) world" where
  "predict_last model inp w =
     (case model (model_state w) (expand_dims (one_hot (heap w inp) (vocab_size w))) of
        (None, m') \<Rightarrow> (Inl PredictorFailure, w\<lparr> model_state := m' \<rparr>)
      | (Some res, m') \<Rightarrow>
          (case res of
             [] \<Rightarrow> (Inl IndexError, w\<lparr> model_state := m' \<rparr>)
           | b # _ \<Rightarrow>
               (if b = [] then (Inl IndexError, w\<lparr> model_state := m' \<rparr>)
                else (Inr (last b), w\<lparr> model_state := m' \<rparr>))))"

text \<open>\<^verbatim>\<open>chars.append(nc)\<close> changes the list object in place.\<close>

definition list_append :: "addr \<Rightarrow> nat \<Rightarrow> ('m, 'r) world \<Rightarrow> ('m, 'r) world" where
  "list_append a v w = w\<lparr> heap := (heap w)(a := heap w a @ [v]) \<rparr>"

text \<open>
  \<^verbatim>\<open>chars.append(nc)\<close> followed by \<^verbatim>\<open>inp = inp+[nc]\<close>, the variables
  \<^verbatim>\<open>inp\<close> and \<^verbatim>\<open>chars\<close> holding references: the first statement writes
  through the reference \<^verbatim>\<open>chars\<close>; the second reads the object \<^verbatim>\<open>inp\<close>
  refers to after that write and binds \<^verbatim>\<open>inp\<close> to a new object. The new value
  of \<^verbatim>\<open>inp\<close> is returned.
\<close>

definition advance :: "addr \<Rightarrow> addr \<Rightarrow> nat \<Rightarrow> ('m, 'r) world \<Rightarrow> addr \<times> ('m, 'r) world" where
  "advance inp chars nc w =
     (let w2 = list_append chars nc w in alloc (heap w2 inp @ [nc]) w2)"

text \<open>
  The loop \<^verbatim>\<open>for i in range(size)\<close> of \<^verbatim>\<open>generate\<close>, by recursion on
  the number of iterations left (\<^verbatim>\<open>size\<close> is a count; a negative value would give
  an empty range, as zero does). It returns both variables.
\<close>

fun generate_loop ::
  "'m predictor \<Rightarrow> nat \<Rightarrow> addr \<Rightarrow> addr \<Rightarrow> ('m, 'r) world \<Rightarrow>
     (error + addr \<times> addr) \<times> ('m, 'r) world" where
  "generate_loop model 0 inp chars w = (Inr (inp, chars), w)"
| "generate_loop model (Suc n) inp chars w =
     (case predict_last model inp w of
        (Inl e, w1) \<Rightarrow> (Inl e, w1)
      | (Inr out, w1) \<Rightarrow>
          (case argmax out of
             None \<Rightarrow> (Inl InvalidArgument, w1)
           | Some nc \<Rightarrow>
               if nc = eos_token w1 then (Inr (inp, chars), w1)
               else
                 (case advance inp chars nc w1 of
                    (inp', w2) \<Rightarrow> generate_loop model n inp' chars w2)))"

text \<open>
  \<^verbatim>\<open>generate\<close> up to its last line: \<^verbatim>\<open>inp\<close> is the encoded seed,
  \<^verbatim>\<open>chars = inp\<close> is a second reference to the same object, the loop runs, and the
  object \<^verbatim>\<open>chars\<close> refers to is the token sequence that will be decoded.
\<close>

definition generate_chars ::
  "'m predictor \<Rightarrow> nat \<Rightarrow> string \<Rightarrow> ('m, 'r) world \<Rightarrow> (error + nat list) \<times> ('m, 'r) world" where
  "generate_chars model sz start w =
     (case texts_to_sequences start w of
        (inp, w0) \<Rightarrow>
          (case generate_loop model sz inp inp w0 of
             (Inl e, w1) \<Rightarrow> (Inl e, w1)
           | (Inr (_, chars), w1) \<Rightarrow> (Inr (heap w1 chars), w1)))"

definition generate ::
  "'m predictor \<Rightarrow> nat \<Rightarrow> string \<Rightarrow> ('m, 'r) world \<Rightarrow> (error + string) \<times> ('m, 'r) world" where
  "generate model sz start w =
     (case generate_chars model sz start w of
        (Inl e, w1) \<Rightarrow> (Inl e, w1)
      | (Inr cs, w1) \<Rightarrow> (Inr (decode w1 cs), w1))"

text \<open>
  The lines
  \<^verbatim>\<open>probs = tf.exp(tf.math.log(out)/temperature).numpy().astype(np.float64)\<close>,
  \<^verbatim>\<open>probs = probs/np.sum(probs)\<close> and
  \<^verbatim>\<open>nc = np.argmax(np.random.multinomial(1,probs,1))\<close>, in this order and with
  nothing between them: the temperature is used as it was passed in, and the array is
  divided by its sum whatever the sum is.
\<close>

definition sample_next ::
  "('v, 's, 'r) numerics \<Rightarrow> tensor1 \<Rightarrow> real \<Rightarrow> ('m, 'r) world \<Rightarrow>
     (error + nat) \<times> ('m, 'r) world" where
  "sample_next nm out temperature w =
     (let probs = rescale nm out temperature;
          probs = np_divide nm probs (np_sum nm probs)
      in case draw nm (rng_state w) probs of
           (None, r') \<Rightarrow> (Inl SamplingFailure, w\<lparr> rng_state := r' \<rparr>)
         | (Some nc, r') \<Rightarrow> (Inr nc, w\<lparr> rng_state := r' \<rparr>))"

fun generate_soft_loop ::
  "'m predictor \<Rightarrow> ('v, 's, 'r) numerics \<Rightarrow> real \<Rightarrow> nat \<Rightarrow> addr \<Rightarrow> addr \<Rightarrow> ('m, 'r) world \<Rightarrow>
     (error + addr \<times> addr) \<times> ('m, 'r) world" where
  "generate_soft_loop model nm temperature 0 inp chars w = (Inr (inp, chars), w)"
| "generate_soft_loop model nm temperature (Suc n) inp chars w =
     (case predict_last model inp w of
        (Inl e, w1) \<Rightarrow> (Inl e, w1)
      | (Inr out, w1) \<Rightarrow>
          (case sample_next nm out temperature w1 of
             (Inl e, w1') \<Rightarrow> (Inl e, w1')
           | (Inr nc, w1') \<Rightarrow>
               if nc = eos_token w1' then (Inr (inp, chars), w1')
               else
                 (case advance inp chars nc w1' of
                    (inp', w2) \<Rightarrow> generate_soft_loop model nm temperature n inp' chars w2)))"

definition generate_soft_chars ::
  "'m predictor \<Rightarrow> ('v, 's, 'r) numerics \<Rightarrow> nat \<Rightarrow> string \<Rightarrow> real \<Rightarrow> ('m, 'r) world \<Rightarrow>
     (error + nat list) \<times> ('m, 'r) world" where
  "generate_soft_chars model nm sz start temperature w =
     (case texts_to_sequences start w of
        (inp, w0) \<Rightarrow>
          (case generate_soft_loop model nm temperature sz inp inp w0 of
             (Inl e, w1) \<Rightarrow> (Inl e, w1)
           | (Inr (_, chars), w1) \<Rightarrow> (Inr (heap w1 chars), w1)))"

definition generate_soft ::
  "'m predictor \<Rightarrow> ('v, 's, 'r) numerics \<Rightarrow> nat \<Rightarrow> string \<Rightarrow> real \<Rightarrow> ('m, 'r) world \<Rightarrow>
     (error + string) \<times> ('m, 'r) world" where
  "generate_soft model nm sz start temperature w =
     (case generate_soft_chars model nm sz start temperature w of
        (Inl e, w1) \<Rightarrow> (Inl e, w1)
      | (Inr cs, w1) \<Rightarrow> (Inr (decode w1 cs), w1))"

subsection \<open>Stub predictors and the example vocabulary\<close>

text \<open>The vocabulary \<^verbatim>\<open>{'a':1,'b':2,'c':3}\<close> as the tokenizer would hold it.\<close>

definition abc_index :: "(string \<times> nat) list" where
  "abc_index = [(''a'', 1), (''b'', 2), (''c'', 3)]"

text \<open>
  The state of the notebook for that vocabulary, for a model object whose state is a
  call counter starting at \<open>0\<close>.
\<close>

definition abc_world :: "(nat, unit) world" where
  "abc_world = setup_world abc_index 0 ()"

text \<open>
  A stub whose state counts its calls: call number \<open>n\<close> (from \<open>0\<close>) answers with
  the one-hot distribution of entry \<open>n mod 4\<close> of the schedule \<open>[1,2,3,4]\<close>,
  whatever the input.
\<close>

definition cycle_stub :: "nat predictor" where
  "cycle_stub n x = (Some [one_hot [[1, 2, 3, 4] ! (n mod 4)] 5], Suc n)"

text \<open>A predictor that keeps no state: a function of the input it is shown.\<close>

definition pure_model :: "(tensor3 \<Rightarrow> tensor3 option) \<Rightarrow> 'm predictor" where
  "pure_model f m x = (f x, m)"

text \<open>
  A predictor that is a function of its input alone: it answers with the index that
  follows the last index of the sequence it is shown (read off the last one-hot row),
  and with index \<open>1\<close> when shown an empty sequence.
\<close>

definition successor_stub :: "tensor3 \<Rightarrow> tensor3 option" where
  "successor_stub x =
     (case x of
        [] \<Rightarrow> None
      | b # _ \<Rightarrow>
          Some [one_hot [case (if b = [] then None else argmax (last b)) of
                           None \<Rightarrow> 1 | Some i \<Rightarrow> Suc i] 5])"

text \<open>
  A predictor that answers every query with the uniform distribution over the five
  indices, and one that answers with five zeros (not a distribution).
\<close>

definition uniform_stub :: "tensor3 \<Rightarrow> tensor3 option" where
  "uniform_stub x = Some [[[1/5, 1/5, 1/5, 1/5, 1/5]]]"


subsection \<open>The numeric library operations on special values\<close>

text \<open>
  Modelled from the spec: the arithmetic behind
  \<^verbatim>\<open>exp(log(p_i)/temperature)\<close>, the sum and the division is the libraries'. It
  is IEEE arithmetic: besides finite numbers there are the two infinities and
  not-a-number, and no operation raises. Finite results are taken as exact (no
  rounding, overflow or underflow), and zero has no sign: the divisor zero is
  \<^verbatim>\<open>+0.0\<close>.
\<close>

datatype fl = Fin real | PInf | NInf | NaN

text \<open>\<^verbatim>\<open>tf.math.log\<close> of a finite entry.\<close>

definition fl_log :: "real \<Rightarrow> fl" where
  "fl_log p = (if 0 < p then Fin (ln p) else if p = 0 then NInf else NaN)"

fun fl_divide :: "fl \<Rightarrow> fl \<Rightarrow> fl" where
  "fl_divide NaN y = NaN"
| "fl_divide x NaN = NaN"
| "fl_divide (Fin x) (Fin y) =
     (if y \<noteq> 0 then Fin (x / y) else if x = 0 then NaN else if 0 < x then PInf else NInf)"
| "fl_divide (Fin x) y = Fin 0"
| "fl_divide PInf (Fin y) = (if 0 \<le> y then PInf else NInf)"
| "fl_divide NInf (Fin y) = (if 0 \<le> y then NInf else PInf)"
| "fl_divide x y = NaN"

fun fl_exp :: "fl \<Rightarrow> fl" where
  "fl_exp (Fin x) = Fin (exp x)"
| "fl_exp PInf = PInf"
| "fl_exp NInf = Fin 0"
| "fl_exp NaN = NaN"

fun fl_add :: "fl \<Rightarrow> fl \<Rightarrow> fl" where
  "fl_add NaN y = NaN"
| "fl_add x NaN = NaN"
| "fl_add (Fin x) (Fin y) = Fin (x + y)"
| "fl_add PInf NInf = NaN"
| "fl_add NInf PInf = NaN"
| "fl_add PInf y = PInf"
| "fl_add x PInf = PInf"
| "fl_add x y = NInf"

definition rescale_np :: "tensor1 \<Rightarrow> real \<Rightarrow> fl list" where
  "rescale_np out temperature =
     map (\<lambda>p. fl_exp (fl_divide (fl_log p) (Fin temperature))) out"

definition sum_np :: "fl list \<Rightarrow> fl" where
  "sum_np probs = foldl fl_add (Fin 0) probs"

definition divide_np :: "fl list \<Rightarrow> fl \<Rightarrow> fl list" where
  "divide_np probs s = map (\<lambda>x. fl_divide x s) probs"

text \<open>
  Modelled from the spec: the single-trial multinomial draw is the library's. It
  validates its argument before drawing and raises when the array holds an entry that is
  not a number between \<open>0\<close> and \<open>1\<close> (not-a-number included) or when the entries
  but the last sum to more than \<open>1 + 1e-12\<close>; on an empty array
  \<^verbatim>\<open>np.argmax\<close> raises. Otherwise the index comes from the random generator:
  \<open>pick\<close> is that choice, a parameter.
\<close>

fun in_unit :: "fl \<Rightarrow> bool" where
  "in_unit (Fin x) = (0 \<le> x \<and> x \<le> 1)"
| "in_unit x = False"

fun fin_val :: "fl \<Rightarrow> real" where
  "fin_val (Fin x) = x"
| "fin_val x = 0"

definition draw_np :: "('r \<Rightarrow> fl list \<Rightarrow> nat \<times> 'r) \<Rightarrow> 'r \<Rightarrow> fl list \<Rightarrow> nat option \<times> 'r" where
  "draw_np pick r probs =
     (if probs = [] \<or> \<not> list_all in_unit probs \<or>
         1 + 1 / 10 ^ 12 < sum_list (map fin_val (butlast probs))
      then (None, r)
      else (case pick r probs of (nc, r') \<Rightarrow> (Some nc, r')))"

definition np_numerics :: "('r \<Rightarrow> fl list \<Rightarrow> nat \<times> 'r) \<Rightarrow> (fl list, fl, 'r) numerics" where
  "np_numerics pick =
     \<lparr> rescale = rescale_np, np_sum = sum_np, np_divide = divide_np, draw = draw_np pick \<rparr>"

text \<open>
  Two outcomes of the draw: the first index whose entry is positive (on a one-hot
  array the only possible outcome), and a given index \<open>k\<close> (possible whenever entry
  \<open>k\<close> is positive).
\<close>

fun is_positive :: "fl \<Rightarrow> bool" where
  "is_positive (Fin x) = (0 < x)"
| "is_positive x = False"

definition first_positive :: "'r \<Rightarrow> fl list \<Rightarrow> nat \<times> 'r" where
  "first_positive r probs = (length (takeWhile (\<lambda>x. \<not> is_positive x) probs), r)"

definition pick_index :: "nat \<Rightarrow> 'r \<Rightarrow> fl list \<Rightarrow> nat \<times> 'r" where
  "pick_index k r probs = (k, r)"


subsection \<open>Predictors that always answer\<close>

text \<open>
  \<open>never_raises model\<close>: in every state and on every input the model returns a
  batch whose first entry has at least one position, so that neither the call nor
  \<^verbatim>\<open>[0][-1]\<close> raises.
\<close>

definition never_raises :: "'m predictor \<Rightarrow> bool" where
  "never_raises model \<longleftrightarrow>
     (\<forall>m x. \<exists>b bs m'. model m x = (Some (b # bs), m') \<and> b \<noteq> [])"

subsection \<open>The step at which the end-of-sequence token is first selected\<close>

text \<open>
  \<open>eos_first_from model k inp chars w\<close>: counting from the state \<open>w\<close> of a
  call of \<^verbatim>\<open>generate\<close>, the predictor is queried \<open>k\<close> times, each time on the
  sequence the decoder then holds in \<^verbatim>\<open>inp\<close>; each of the first \<open>k - 1\<close>
  distributions it returns has an \<^verbatim>\<open>argmax\<close> other than the end-of-sequence index
  (and the decoder takes that index), and the \<open>k\<close>-th has the end-of-sequence index as
  its \<^verbatim>\<open>argmax\<close>. A query that raises or returns no distribution makes it false.
\<close>

fun eos_first_from :: "'m predictor \<Rightarrow> nat \<Rightarrow> addr \<Rightarrow> addr \<Rightarrow> ('m, 'r) world \<Rightarrow> bool" where
  "eos_first_from model 0 inp chars w = False"
| "eos_first_from model (Suc j) inp chars w =
     (case predict_last model inp w of
        (Inl e, w1) \<Rightarrow> False
      | (Inr out, w1) \<Rightarrow>
          (case argmax out of
             None \<Rightarrow> False
           | Some nc \<Rightarrow>
               if j = 0 then nc = eos_token w1
               else nc \<noteq> eos_token w1 \<and>
                 (case advance inp chars nc w1 of
                    (inp', w2) \<Rightarrow> eos_first_from model j inp' chars w2)))"

text \<open>
  \<open>eos_first_at model start k w\<close>: in a call of \<^verbatim>\<open>generate\<close> with seed
  \<open>start\<close> from the state \<open>w\<close>, step \<open>k\<close> is the first step at which the
  predictor's distribution has the end-of-sequence index as its most probable entry.
\<close>

definition eos_first_at :: "'m predictor \<Rightarrow> string \<Rightarrow> nat \<Rightarrow> ('m, 'r) world \<Rightarrow> bool" where
  "eos_first_at model start k w \<longleftrightarrow>
     (case texts_to_sequences start w of
        (inp, w0) \<Rightarrow> eos_first_from model k inp inp w0)"

section \<open>The vocabulary\<close>

lemma update_fresh: "k \<notin> fst ` set al \<Longrightarrow> AList.update k v al = al @ [(k, v)]"
  by (induction al) auto

lemma eos_key_fresh: "char_index_ok wi0 \<Longrightarrow> ''<eos>'' \<notin> fst ` set wi0"
  by (fastforce simp: char_index_ok_def)

lemma word_index_setup:
  "char_index_ok wi0 \<Longrightarrow>
   word_index (setup_world wi0 m r) = wi0 @ [(''<eos>'', length wi0 + 1)]"
  by (simp add: setup_world_def Let_def update_fresh eos_key_fresh)

lemma setup_world_simps:
  "eos_token (setup_world wi0 m r) = length wi0 + 1"
  "vocab_size (setup_world wi0 m r) = length wi0 + 2"
  "reverse_map (setup_world wi0 m r) = build_reverse_map (word_index (setup_world wi0 m r))"
  "next_addr (setup_world wi0 m r) = 0"
  "model_state (setup_world wi0 m r) = m"
  "rng_state (setup_world wi0 m r) = r"
  by (simp_all add: setup_world_def Let_def)

lemma fold_update_notin:
  "v \<notin> snd ` set xs \<Longrightarrow>
   map_of (fold (\<lambda>(key, val) rm. AList.update val key rm) xs acc) v = map_of acc v"
  by (induction xs arbitrary: acc) (auto simp: update_conv')

lemma fold_update_in:
  "distinct (map snd xs) \<Longrightarrow> (k, v) \<in> set xs \<Longrightarrow>
   map_of (fold (\<lambda>(key, val) rm. AList.update val key rm) xs acc) v = Some k"
proof (induction xs arbitrary: acc)
  case Nil
  then show ?case by simp
next
  case (Cons x xs)
  show ?case
  proof (cases "x = (k, v)")
    case True
    with Cons.prems have "v \<notin> snd ` set xs" by auto
    with True show ?thesis by (simp add: fold_update_notin update_conv')
  next
    case False
    with Cons show ?thesis by auto
  qed
qed

lemma reverse_map_in:
  "distinct (map snd wi) \<Longrightarrow> (k, v) \<in> set wi \<Longrightarrow> map_of (build_reverse_map wi) v = Some k"
  by (simp add: build_reverse_map_def fold_update_in)

lemma reverse_map_notin:
  "v \<notin> snd ` set wi \<Longrightarrow> map_of (build_reverse_map wi) v = None"
  by (simp add: build_reverse_map_def fold_update_notin)

lemma distinct_values_setup:
  "char_index_ok wi0 \<Longrightarrow> distinct (map snd (wi0 @ [(''<eos>'', length wi0 + 1)]))"
  by (auto simp: char_index_ok_def)

lemma decode_Nil: "decode w [] = ''''"
  by (simp add: decode_def)

lemma decode_Cons:
  "decode w (t # ts) =
   (case map_of (reverse_map w) t of None \<Rightarrow> '''' | Some s \<Rightarrow> s) @ decode w ts"
  by (simp add: decode_def)

lemma decode_append: "decode w (xs @ ys) = decode w xs @ decode w ys"
  by (simp add: decode_def)

lemma encode_chars_Nil: "encode_chars wi [] = []"
  by (simp add: encode_chars_def)

lemma encode_chars_Cons:
  "encode_chars wi (c # cs) =
   (case map_of wi [c] of None \<Rightarrow> [] | Some i \<Rightarrow> [i]) @ encode_chars wi cs"
  by (simp add: encode_chars_def)

lemma decode_encode_chars:
  assumes d: "distinct (map fst wi)" "distinct (map snd wi)"
      and rm: "reverse_map w = build_reverse_map wi"
      and s: "\<forall>c \<in> set s. [c] \<in> fst ` set wi"
  shows "decode w (encode_chars wi s) = s"
  using s
proof (induction s)
  case Nil
  show ?case by (simp add: encode_chars_Nil decode_Nil)
next
  case (Cons c cs)
  then obtain i where i: "([c], i) \<in> set wi" by auto
  with d have "map_of wi [c] = Some i" by simp
  moreover from d(2) i have "map_of (build_reverse_map wi) i = Some [c]"
    by (rule reverse_map_in)
  ultimately show ?case using Cons
    by (simp add: encode_chars_Cons decode_Cons rm)
qed

lemma distinct_keys_setup:
  "char_index_ok wi0 \<Longrightarrow> distinct (map fst (wi0 @ [(''<eos>'', length wi0 + 1)]))"
  using eos_key_fresh [of wi0] by (auto simp: char_index_ok_def)

text \<open>
  Claim C1. For the vocabulary the notebook builds from a character index of the
  tokenizer, and every string \<open>s\<close> whose characters all have an entry in
  \<^verbatim>\<open>word_index\<close>, decoding the token list that
  \<^verbatim>\<open>tokenizer.texts_to_sequences([s])[0]\<close> returns gives back \<open>s\<close>.
\<close>

theorem decode_encode_roundtrip:
  assumes ok: "char_index_ok wi0"
      and s: "\<forall>c \<in> set s. [c] \<in> fst ` set (word_index (setup_world wi0 m r))"
  shows "case texts_to_sequences s (setup_world wi0 m r) of
           (inp, w') \<Rightarrow> decode w' (heap w' inp) = s"
proof -
  let ?w = "setup_world wi0 m r"
  have "decode ?w (encode_chars (word_index ?w) s) = s"
    using distinct_keys_setup [OF ok] distinct_values_setup [OF ok] s
    by (intro decode_encode_chars) (simp_all add: word_index_setup [OF ok] setup_world_simps)
  then show ?thesis
    by (simp add: texts_to_sequences_def alloc_def decode_def)
qed

theorem decode_encode_roundtrip_witness:
  "(case texts_to_sequences ''cab'' (setup_world abc_index () ()) of
           (inp, w') \<Rightarrow> decode w' (heap w' inp) = ''cab'')"
proof -
  have ok: "char_index_ok abc_index" by (simp add: char_index_ok_def abc_index_def)
  have s: "\<forall>c \<in> set ''cab''. [c] \<in> fst ` set (word_index (setup_world abc_index () ()))"
    by code_simp
  show ?thesis by (rule decode_encode_roundtrip [OF ok s])
qed

section \<open>Decoding single tokens\<close>

lemma decode_single:
  "decode w [t] = (case map_of (reverse_map w) t of None \<Rightarrow> '''' | Some s \<Rightarrow> s)"
  by (simp add: decode_def)

lemma decode_step: "decode w (t # ts) = decode w [t] @ decode w ts"
  by (simp add: decode_def)

text \<open>
  The claim C2 says that the end-of-sequence index decodes to the empty string. The
  reverse map is built from \<^verbatim>\<open>word_index\<close> after the cell that adds the key
  \<^verbatim>\<open>'<eos>'\<close>, so it maps the end-of-sequence index to that five-character key:
  with the vocabulary \<^verbatim>\<open>{'a':1,'b':2,'c':3}\<close> the index \<open>4\<close> decodes to
  \<^verbatim>\<open><eos>\<close>.
\<close>

theorem decode_eos_counterexample:
  "eos_token (setup_world abc_index () ()) = 4 \<and>
   decode (setup_world abc_index () ()) [4] = ''<eos>'' \<and>
   decode (setup_world abc_index () ()) [4] \<noteq> ''''"
  by code_simp

text \<open>
  Claim C2, amended. \<^verbatim>\<open>decode\<close> has no failing branch and works token by token:
  an index that the tokenizer gave to a character decodes to that character, the
  end-of-sequence index decodes to the literal key \<^verbatim>\<open><eos>\<close>, and an index that is
  no value of \<^verbatim>\<open>word_index\<close> decodes to the empty string.
\<close>

theorem decode_total:
  assumes ok: "char_index_ok wi0"
  shows "(\<forall>c i. ([c], i) \<in> set wi0 \<longrightarrow> decode (setup_world wi0 m r) [i] = [c]) \<and>
         decode (setup_world wi0 m r) [eos_token (setup_world wi0 m r)] = ''<eos>'' \<and>
         (\<forall>t. t \<notin> snd ` set (word_index (setup_world wi0 m r)) \<longrightarrow>
              decode (setup_world wi0 m r) [t] = '''') \<and>
         decode (setup_world wi0 m r) [] = '''' \<and>
         (\<forall>t ts. decode (setup_world wi0 m r) (t # ts) =
                 decode (setup_world wi0 m r) [t] @ decode (setup_world wi0 m r) ts)"
proof -
  let ?w = "setup_world wi0 m r"
  let ?wi = "wi0 @ [(''<eos>'', length wi0 + 1)]"
  have wi: "word_index ?w = ?wi" by (rule word_index_setup [OF ok])
  have rm: "reverse_map ?w = build_reverse_map ?wi" by (simp add: setup_world_simps wi)
  have dv: "distinct (map snd ?wi)" by (rule distinct_values_setup [OF ok])
  have a: "decode ?w [i] = [c]" if "([c], i) \<in> set wi0" for c i
  proof -
    from that have "([c], i) \<in> set ?wi" by simp
    from reverse_map_in [OF dv this] show ?thesis by (simp add: decode_single rm)
  qed
  have "(''<eos>'', length wi0 + 1) \<in> set ?wi" by simp
  from reverse_map_in [OF dv this]
  have b: "decode ?w [eos_token ?w] = ''<eos>''"
    by (simp add: decode_single rm setup_world_simps(1))
  have c: "decode ?w [t] = ''''" if "t \<notin> snd ` set (word_index ?w)" for t
    using reverse_map_notin [of t ?wi] that by (simp add: decode_single rm wi)
  from a b c decode_Nil [of ?w] show ?thesis
    by (blast intro: decode_step)
qed

theorem decode_total_witness:
  "([CHR ''b''], 2) \<in> set abc_index \<and> 
   decode (setup_world abc_index () ()) [2] = ''b'' \<and>
   7 \<notin> snd ` set (word_index (setup_world abc_index () ())) \<and>
   decode (setup_world abc_index () ()) [7] = ''''"
proof -
  have ok: "char_index_ok abc_index" by (simp add: char_index_ok_def abc_index_def)
  have m: "([CHR ''b''], 2) \<in> set abc_index" by (simp add: abc_index_def)
  have n: "7 \<notin> snd ` set (word_index (setup_world abc_index () ()))"
    by (simp add: word_index_setup [OF ok]) (simp add: abc_index_def)
  from decode_total [OF ok, of "()" "()"] m n show ?thesis by blast
qed

section \<open>The indices of the vocabulary\<close>

lemma values_cover:
  assumes ok: "char_index_ok wi0"
  shows "snd ` set wi0 = {1..length wi0}"
proof -
  have sub: "set (map snd wi0) \<subseteq> {1..length wi0}"
    using ok by (auto simp: char_index_ok_def)
  have "card (set (map snd wi0)) = length wi0"
    using ok distinct_card [of "map snd wi0"] by (simp add: char_index_ok_def)
  then have "card (set (map snd wi0)) = card {1..length wi0}" by simp
  with sub have "set (map snd wi0) = {1..length wi0}"
    by (intro card_subset_eq) simp_all
  then show ?thesis by simp
qed

lemma max_value:
  assumes ok: "char_index_ok wi0" and ne: "wi0 \<noteq> []"
  shows "Max (snd ` set wi0) = length wi0"
proof -
  from ne have "1 \<le> length wi0" by (cases wi0) simp_all
  then have "Max {1..length wi0} = length wi0" by (intro Max_eqI) auto
  then show ?thesis by (simp add: values_cover [OF ok])
qed

section \<open>What one statement changes\<close>

lemma predict_last_world:
  "\<exists>m'. snd (predict_last model inp w) = w\<lparr> model_state := m' \<rparr>"
  by (auto simp: predict_last_def split: prod.splits option.splits list.splits)

lemma predict_last_frame:
  assumes "predict_last model inp w = (r, w1)"
  shows "heap w1 = heap w" "next_addr w1 = next_addr w" "vocabulary w1 = vocabulary w"
        "rng_state w1 = rng_state w" "eos_token w1 = eos_token w"
  using predict_last_world [of model inp w] assms by (auto simp: vocabulary_def)

lemma sample_next_world:
  "\<exists>r'. snd (sample_next nm out t w) = w\<lparr> rng_state := r' \<rparr>"
  by (auto simp: sample_next_def Let_def split: prod.splits option.splits)

lemma sample_next_frame:
  assumes "sample_next nm out t w = (r, w1)"
  shows "heap w1 = heap w" "next_addr w1 = next_addr w" "vocabulary w1 = vocabulary w"
        "model_state w1 = model_state w" "eos_token w1 = eos_token w"
  using sample_next_world [of nm out t w] assms by (auto simp: vocabulary_def)

lemma advance_frame:
  assumes "advance inp chars nc w = (inp', w')"
  shows "inp' = next_addr w" "next_addr w' = Suc (next_addr w)"
        "vocabulary w' = vocabulary w" "eos_token w' = eos_token w"
        "model_state w' = model_state w" "rng_state w' = rng_state w"
  using assms by (auto simp: advance_def alloc_def list_append_def Let_def vocabulary_def)

lemma advance_chars:
  assumes "advance inp chars nc w = (inp', w')" and "chars < next_addr w"
  shows "heap w' chars = heap w chars @ [nc]"
  using assms by (auto simp: advance_def alloc_def list_append_def Let_def)

lemma advance_inp:
  assumes "advance inp chars nc w = (inp', w')"
  shows "heap w' inp' = (if inp = chars then heap w inp @ [nc, nc] else heap w inp @ [nc])"
  using assms by (auto simp: advance_def alloc_def list_append_def Let_def)

lemma alloc_frame:
  assumes "alloc xs w = (a, w')"
  shows "a = next_addr w" "next_addr w' = Suc (next_addr w)" "heap w' a = xs"
        "vocabulary w' = vocabulary w" "eos_token w' = eos_token w"
        "model_state w' = model_state w" "rng_state w' = rng_state w"
        "reverse_map w' = reverse_map w"
  using assms by (auto simp: alloc_def vocabulary_def)

lemma decode_cong: "reverse_map w' = reverse_map w \<Longrightarrow> decode w' = decode w"
  by (simp add: decode_def fun_eq_iff)

text \<open>
  In the first iteration \<^verbatim>\<open>inp\<close> and \<^verbatim>\<open>chars\<close> are the same object, so
  the sequence the model is shown next holds the first selected token twice, while
  the sequence that will be decoded holds it once.
\<close>

lemma advance_aliased:
  assumes "advance a a nc w = (inp', w')" and "a < next_addr w"
  shows "heap w' inp' = heap w a @ [nc, nc]" and "heap w' a = heap w a @ [nc]"
  using advance_inp [OF assms(1)] advance_chars [OF assms] by simp_all

section \<open>The greedy loop\<close>

lemma generate_loop_vocabulary:
  "generate_loop model n inp chars w = (r, w') \<Longrightarrow>
   vocabulary w' = vocabulary w \<and> rng_state w' = rng_state w"
proof (induction n arbitrary: inp w)
  case 0
  then show ?case by simp
next
  case (Suc n)
  obtain r1 w1 where p: "predict_last model inp w = (r1, w1)" by force
  note f = predict_last_frame [OF p]
  show ?case
  proof (cases r1)
    case (Inl e)
    with Suc.prems p f show ?thesis by auto
  next
    case (Inr out)
    show ?thesis
    proof (cases "argmax out")
      case None
      with Suc.prems p f Inr show ?thesis by auto
    next
      case (Some nc)
      show ?thesis
      proof (cases "nc = eos_token w1")
        case True
        with Suc.prems p f Inr Some show ?thesis by auto
      next
        case False
        obtain inp' w2 where a: "advance inp chars nc w1 = (inp', w2)" by force
        from Suc.prems p Inr Some False a
        have "generate_loop model n inp' chars w2 = (r, w')" by simp
        from Suc.IH [OF this] advance_frame [OF a] f show ?thesis by simp
      qed
    qed
  qed
qed

lemma generate_loop_chars:
  "generate_loop model n inp chars w = (r, w') \<Longrightarrow> chars < next_addr w \<Longrightarrow>
   (\<exists>ext. heap w' chars = heap w chars @ ext \<and> length ext \<le> n \<and> eos_token w \<notin> set ext) \<and>
   (\<forall>i c. r = Inr (i, c) \<longrightarrow> c = chars)"
proof (induction n arbitrary: inp w)
  case 0
  then show ?case by auto
next
  case (Suc n)
  obtain r1 w1 where p: "predict_last model inp w = (r1, w1)" by force
  note f = predict_last_frame [OF p]
  show ?case
  proof (cases r1)
    case (Inl e)
    with Suc.prems p f show ?thesis by auto
  next
    case (Inr out)
    show ?thesis
    proof (cases "argmax out")
      case None
      with Suc.prems p f Inr show ?thesis by auto
    next
      case (Some nc)
      show ?thesis
      proof (cases "nc = eos_token w1")
        case True
        with Suc.prems p f Inr Some show ?thesis by auto
      next
        case False
        obtain inp' w2 where a: "advance inp chars nc w1 = (inp', w2)" by force
        from Suc.prems p Inr Some False a
        have run: "generate_loop model n inp' chars w2 = (r, w')" by simp
        have lt: "chars < next_addr w2"
          using advance_frame(2) [OF a] f(2) Suc.prems(2) by simp
        from Suc.IH [OF run lt] obtain ext where
          ext: "heap w' chars = heap w2 chars @ ext" "length ext \<le> n"
               "eos_token w2 \<notin> set ext"
          and c: "\<forall>i c. r = Inr (i, c) \<longrightarrow> c = chars" by blast
        have h2: "heap w2 chars = heap w chars @ [nc]"
          using advance_chars [OF a] f(1,2) Suc.prems(2) by simp
        have e2: "eos_token w2 = eos_token w" "eos_token w1 = eos_token w"
          using advance_frame(4) [OF a] f(5) by simp_all
        have "heap w' chars = heap w chars @ (nc # ext) \<and> length (nc # ext) \<le> Suc n \<and>
              eos_token w \<notin> set (nc # ext)"
          using ext h2 e2 False by auto
        with c show ?thesis by blast
      qed
    qed
  qed
qed

section \<open>The sampling loop\<close>

lemma generate_soft_loop_vocabulary:
  "generate_soft_loop model nm t n inp chars w = (r, w') \<Longrightarrow>
   vocabulary w' = vocabulary w"
proof (induction n arbitrary: inp w)
  case 0
  then show ?case by simp
next
  case (Suc n)
  obtain r1 w1 where p: "predict_last model inp w = (r1, w1)" by force
  note f = predict_last_frame [OF p]
  show ?case
  proof (cases r1)
    case (Inl e)
    with Suc.prems p f show ?thesis by auto
  next
    case (Inr out)
    obtain r2 w1' where s: "sample_next nm out t w1 = (r2, w1')" by force
    note g = sample_next_frame [OF s]
    show ?thesis
    proof (cases r2)
      case (Inl e)
      with Suc.prems p f Inr s g show ?thesis by auto
    next
      case nc: (Inr nc)
      show ?thesis
      proof (cases "nc = eos_token w1'")
        case True
        with Suc.prems p f Inr s g nc show ?thesis by auto
      next
        case False
        obtain inp' w2 where a: "advance inp chars nc w1' = (inp', w2)" by force
        from Suc.prems p Inr s nc False a
        have "generate_soft_loop model nm t n inp' chars w2 = (r, w')" by simp
        from Suc.IH [OF this] advance_frame [OF a] f g show ?thesis by simp
      qed
    qed
  qed
qed

lemma generate_soft_loop_chars:
  "generate_soft_loop model nm t n inp chars w = (r, w') \<Longrightarrow> chars < next_addr w \<Longrightarrow>
   (\<exists>ext. heap w' chars = heap w chars @ ext \<and> length ext \<le> n \<and> eos_token w \<notin> set ext) \<and>
   (\<forall>i c. r = Inr (i, c) \<longrightarrow> c = chars)"
proof (induction n arbitrary: inp w)
  case 0
  then show ?case by auto
next
  case (Suc n)
  obtain r1 w1 where p: "predict_last model inp w = (r1, w1)" by force
  note f = predict_last_frame [OF p]
  show ?case
  proof (cases r1)
    case (Inl e)
    with Suc.prems p f show ?thesis by auto
  next
    case (Inr out)
    obtain r2 w1' where s: "sample_next nm out t w1 = (r2, w1')" by force
    note g = sample_next_frame [OF s]
    show ?thesis
    proof (cases r2)
      case (Inl e)
      with Suc.prems p f Inr s g show ?thesis by auto
    next
      case nc: (Inr nc)
      show ?thesis
      proof (cases "nc = eos_token w1'")
        case True
        with Suc.prems p f Inr s g nc show ?thesis by auto
      next
        case False
        obtain inp' w2 where a: "advance inp chars nc w1' = (inp', w2)" by force
        from Suc.prems p Inr s nc False a
        have run: "generate_soft_loop model nm t n inp' chars w2 = (r, w')" by simp
        have lt: "chars < next_addr w2"
          using advance_frame(2) [OF a] f(2) g(2) Suc.prems(2) by simp
        from Suc.IH [OF run lt] obtain ext where
          ext: "heap w' chars = heap w2 chars @ ext" "length ext \<le> n"
               "eos_token w2 \<notin> set ext"
          and c: "\<forall>i c. r = Inr (i, c) \<longrightarrow> c = chars" by blast
        have h2: "heap w2 chars = heap w chars @ [nc]"
          using advance_chars [OF a] f(1,2) g(1,2) Suc.prems(2) by simp
        have e2: "eos_token w2 = eos_token w" "eos_token w1' = eos_token w"
          using advance_frame(4) [OF a] f(5) g(5) by simp_all
        have "heap w' chars = heap w chars @ (nc # ext) \<and> length (nc # ext) \<le> Suc n \<and>
              eos_token w \<notin> set (nc # ext)"
          using ext h2 e2 False by auto
        with c show ?thesis by blast
      qed
    qed
  qed
qed

section \<open>Whole calls\<close>

lemma generate_chars_result:
  assumes "generate_chars model sz start w = (Inr cs, w')"
  shows "\<exists>ext. cs = encode_chars (word_index w) start @ ext \<and> length ext \<le> sz \<and>
              eos_token w \<notin> set ext"
proof -
  obtain a w0 where t: "texts_to_sequences start w = (a, w0)" by force
  then have al: "alloc (encode_chars (word_index w) start) w = (a, w0)"
    by (simp add: texts_to_sequences_def)
  note af = alloc_frame [OF al]
  obtain r w1 where l: "generate_loop model sz a a w0 = (r, w1)" by force
  from af have lt: "a < next_addr w0" by simp
  from assms t l obtain i c where r: "r = Inr (i, c)" and cs: "cs = heap w1 c"
    by (auto simp: generate_chars_def split: sum.splits)
  from generate_loop_chars [OF l lt] r obtain ext where
    "heap w1 a = heap w0 a @ ext" "length ext \<le> sz" "eos_token w0 \<notin> set ext" "c = a"
    by blast
  with cs af show ?thesis by auto
qed

lemma generate_soft_chars_result:
  assumes "generate_soft_chars model nm sz start t w = (Inr cs, w')"
  shows "\<exists>ext. cs = encode_chars (word_index w) start @ ext \<and> length ext \<le> sz \<and>
              eos_token w \<notin> set ext"
proof -
  obtain a w0 where t: "texts_to_sequences start w = (a, w0)" by force
  then have al: "alloc (encode_chars (word_index w) start) w = (a, w0)"
    by (simp add: texts_to_sequences_def)
  note af = alloc_frame [OF al]
  obtain r w1 where l: "generate_soft_loop model nm t sz a a w0 = (r, w1)" by force
  from af have lt: "a < next_addr w0" by simp
  from assms t l obtain i c where r: "r = Inr (i, c)" and cs: "cs = heap w1 c"
    by (auto simp: generate_soft_chars_def split: sum.splits)
  from generate_soft_loop_chars [OF l lt] r obtain ext where
    "heap w1 a = heap w0 a @ ext" "length ext \<le> sz" "eos_token w0 \<notin> set ext" "c = a"
    by blast
  with cs af show ?thesis by auto
qed

lemma generate_chars_vocabulary:
  "vocabulary (snd (generate_chars model sz start w)) = vocabulary w"
proof -
  obtain a w0 where t: "texts_to_sequences start w = (a, w0)" by force
  then have al: "alloc (encode_chars (word_index w) start) w = (a, w0)"
    by (simp add: texts_to_sequences_def)
  obtain r w1 where l: "generate_loop model sz a a w0 = (r, w1)" by force
  have "snd (generate_chars model sz start w) = w1"
    using t l by (auto simp: generate_chars_def split: sum.splits)
  with generate_loop_vocabulary [OF l] alloc_frame(4) [OF al] show ?thesis by simp
qed

lemma generate_soft_chars_vocabulary:
  "vocabulary (snd (generate_soft_chars model nm sz start t w)) = vocabulary w"
proof -
  obtain a w0 where t: "texts_to_sequences start w = (a, w0)" by force
  then have al: "alloc (encode_chars (word_index w) start) w = (a, w0)"
    by (simp add: texts_to_sequences_def)
  obtain r w1 where l: "generate_soft_loop model nm t sz a a w0 = (r, w1)" by force
  have "snd (generate_soft_chars model nm sz start t w) = w1"
    using t l by (auto simp: generate_soft_chars_def split: sum.splits)
  with generate_soft_loop_vocabulary [OF l] alloc_frame(4) [OF al] show ?thesis by simp
qed

lemma generate_world: "snd (generate model sz start w) = snd (generate_chars model sz start w)"
  by (simp add: generate_def split: prod.splits sum.splits)

lemma generate_soft_world:
  "snd (generate_soft model nm sz start t w) =
   snd (generate_soft_chars model nm sz start t w)"
  by (simp add: generate_soft_def split: prod.splits sum.splits)

lemma vocabulary_decode: "vocabulary w' = vocabulary w \<Longrightarrow> decode w' = decode w"
  by (rule decode_cong) (simp add: vocabulary_def)

lemma generate_text:
  "fst (generate model sz start w) = map_sum id (decode w) (fst (generate_chars model sz start w))"
proof -
  obtain r w1 where g: "generate_chars model sz start w = (r, w1)" by force
  with generate_chars_vocabulary [of model sz start w] have "vocabulary w1 = vocabulary w"
    by simp
  then have "decode w1 = decode w" by (rule vocabulary_decode)
  with g show ?thesis by (cases r) (simp_all add: generate_def)
qed

lemma generate_soft_text:
  "fst (generate_soft model nm sz start t w) =
   map_sum id (decode w) (fst (generate_soft_chars model nm sz start t w))"
proof -
  obtain r w1 where g: "generate_soft_chars model nm sz start t w = (r, w1)" by force
  with generate_soft_chars_vocabulary [of model nm sz start t w]
  have "vocabulary w1 = vocabulary w" by simp
  then have "decode w1 = decode w" by (rule vocabulary_decode)
  with g show ?thesis by (cases r) (simp_all add: generate_soft_def)
qed

text \<open>
  Claim C3. Whatever the predictor (and, for \<^verbatim>\<open>generate_soft\<close>, whatever the
  sampling code and the temperature), the seed and \<^verbatim>\<open>size\<close>: when the greedy or
  the sampling decoder returns, the token sequence it decodes is the encoded seed
  followed by at most \<^verbatim>\<open>size\<close> tokens, and the text is the decoding of that
  sequence.
\<close>

theorem bounded_length:
  "(fst (generate_chars model sz start w) = Inr cs \<longrightarrow>
      (\<exists>ext. cs = encode_chars (word_index w) start @ ext \<and> length ext \<le> sz)) \<and>
   (fst (generate model sz start w) = Inr res \<longrightarrow>
      (\<exists>ext. res = decode w (encode_chars (word_index w) start @ ext) \<and> length ext \<le> sz)) \<and>
   (fst (generate_soft_chars model nm sz start t w) = Inr cs' \<longrightarrow>
      (\<exists>ext. cs' = encode_chars (word_index w) start @ ext \<and> length ext \<le> sz)) \<and>
   (fst (generate_soft model nm sz start t w) = Inr res' \<longrightarrow>
      (\<exists>ext. res' = decode w (encode_chars (word_index w) start @ ext) \<and> length ext \<le> sz))"
proof (intro conjI impI)
  assume "fst (generate_chars model sz start w) = Inr cs"
  then have "generate_chars model sz start w = (Inr cs, snd (generate_chars model sz start w))"
    by (metis prod.collapse)
  from generate_chars_result [OF this]
  show "\<exists>ext. cs = encode_chars (word_index w) start @ ext \<and> length ext \<le> sz" by blast
next
  assume "fst (generate model sz start w) = Inr res"
  then obtain cs where c: "fst (generate_chars model sz start w) = Inr cs"
    and tx: "res = decode w cs"
    by (cases "fst (generate_chars model sz start w)") (auto simp: generate_text)
  from c have "generate_chars model sz start w = (Inr cs, snd (generate_chars model sz start w))"
    by (metis prod.collapse)
  from generate_chars_result [OF this] tx
  show "\<exists>ext. res = decode w (encode_chars (word_index w) start @ ext) \<and> length ext \<le> sz"
    by blast
next
  assume "fst (generate_soft_chars model nm sz start t w) = Inr cs'"
  then have "generate_soft_chars model nm sz start t w =
             (Inr cs', snd (generate_soft_chars model nm sz start t w))"
    by (metis prod.collapse)
  from generate_soft_chars_result [OF this]
  show "\<exists>ext. cs' = encode_chars (word_index w) start @ ext \<and> length ext \<le> sz" by blast
next
  assume "fst (generate_soft model nm sz start t w) = Inr res'"
  then obtain cs where c: "fst (generate_soft_chars model nm sz start t w) = Inr cs"
    and tx: "res' = decode w cs"
    by (cases "fst (generate_soft_chars model nm sz start t w)")
       (auto simp: generate_soft_text)
  from c have "generate_soft_chars model nm sz start t w =
               (Inr cs, snd (generate_soft_chars model nm sz start t w))"
    by (metis prod.collapse)
  from generate_soft_chars_result [OF this] tx
  show "\<exists>ext. res' = decode w (encode_chars (word_index w) start @ ext) \<and> length ext \<le> sz"
    by blast
qed

section \<open>Evaluating the stubs\<close>

lemma numerics_fields:
  "rescale (np_numerics pick) = rescale_np" "np_sum (np_numerics pick) = sum_np"
  "np_divide (np_numerics pick) = divide_np" "draw (np_numerics pick) = draw_np pick"
  by (simp_all add: np_numerics_def)

lemma upt_5: "[0..<5] = [0, 1, 2, 3, 4]"
  by code_simp

lemmas np_defs = sample_next_def numerics_fields rescale_np_def sum_np_def divide_np_def
  draw_np_def fl_log_def first_positive_def Let_def

lemmas run_defs = generate_soft_def generate_soft_chars_def texts_to_sequences_def alloc_def
  encode_chars_def abc_world_def setup_world_def abc_index_def build_reverse_map_def
  predict_last_def cycle_stub_def one_hot_def expand_dims_def advance_def list_append_def
  decode_def pure_model_def numeral_2_eq_2 numeral_3_eq_3
  AList.update.simps upt_5

theorem bounded_length_witness:
  "fst (generate_chars cycle_stub 2 ''a'' abc_world) = Inr [1, 1, 2] \<and>
   (\<exists>ext. [1, 1, 2] = encode_chars (word_index abc_world) ''a'' @ ext \<and> length ext \<le> 2) \<and>
   fst (generate cycle_stub 2 ''a'' abc_world) = Inr ''aab'' \<and>
   (\<exists>ext. ''aab'' = decode abc_world (encode_chars (word_index abc_world) ''a'' @ ext) \<and>
      length ext \<le> 2) \<and>
   fst (generate_soft_chars cycle_stub (np_numerics first_positive) 2 ''a'' 1 abc_world)
     = Inr [1, 1, 2] \<and>
   (\<exists>ext. [1, 1, 2] = encode_chars (word_index abc_world) ''a'' @ ext \<and> length ext \<le> 2) \<and>
   fst (generate_soft cycle_stub (np_numerics first_positive) 2 ''a'' 1 abc_world)
     = Inr ''aab'' \<and>
   (\<exists>ext. ''aab'' = decode abc_world (encode_chars (word_index abc_world) ''a'' @ ext) \<and>
      length ext \<le> 2)"
proof -
  have a: "fst (generate_chars cycle_stub 2 ''a'' abc_world) = Inr [1, 1, 2]"
    by code_simp
  have b: "fst (generate cycle_stub 2 ''a'' abc_world) = Inr ''aab''"
    by code_simp
  have c: "fst (generate_soft_chars cycle_stub (np_numerics first_positive) 2 ''a'' 1
                  abc_world) = Inr [1, 1, 2]"
    by (simp add: np_defs run_defs)
  have d: "fst (generate_soft cycle_stub (np_numerics first_positive) 2 ''a'' 1
                  abc_world) = Inr ''aab''"
    by (simp add: np_defs run_defs)
  note t = bounded_length [where model = cycle_stub and sz = 2 and start = "''a''"
      and w = abc_world and cs = "[1, 1, 2]" and res = "''aab''"
      and nm = "np_numerics first_positive" and t = 1 and cs' = "[1, 1, 2]"
      and res' = "''aab''"]
  note t1 = t [THEN conjunct1, THEN mp, OF a]
  note t2 = t [THEN conjunct2, THEN conjunct1, THEN mp, OF b]
  note t3 = t [THEN conjunct2, THEN conjunct2, THEN conjunct1, THEN mp, OF c]
  note t4 = t [THEN conjunct2, THEN conjunct2, THEN conjunct2, THEN mp, OF d]
  show ?thesis by (intro conjI) (rule a b c d t1 t2 t3 t4)+
qed

section \<open>The vocabulary is read, never written\<close>

lemma texts_to_sequences_vocabulary:
  "vocabulary (snd (texts_to_sequences s w)) = vocabulary w"
  by (simp add: texts_to_sequences_def alloc_def vocabulary_def)

text \<open>
  Claim C10. For the vocabulary the notebook builds from a character index of the
  tokenizer: the end-of-sequence index is one more than the largest character index
  (when there is a character at all), it is the index of no character,
  \<^verbatim>\<open>vocab_size\<close> is the end-of-sequence index plus one, and every value of
  \<^verbatim>\<open>word_index\<close>, the end-of-sequence index included, is below
  \<^verbatim>\<open>vocab_size\<close>. Encoding a text, \<^verbatim>\<open>generate\<close> and
  \<^verbatim>\<open>generate_soft\<close> leave \<^verbatim>\<open>word_index\<close>, \<^verbatim>\<open>eos_token\<close>,
  \<^verbatim>\<open>vocab_size\<close> and \<^verbatim>\<open>reverse_map\<close> as they found them, from any state;
  \<^verbatim>\<open>decode\<close> only reads the state.
\<close>

theorem vocabulary_invariant:
  assumes ok: "char_index_ok wi0"
  shows "(wi0 \<noteq> [] \<longrightarrow> eos_token (setup_world wi0 m r) = Max (snd ` set wi0) + 1) \<and>
         eos_token (setup_world wi0 m r) \<notin> snd ` set wi0 \<and>
         vocab_size (setup_world wi0 m r) = eos_token (setup_world wi0 m r) + 1 \<and>
         (\<forall>v \<in> snd ` set (word_index (setup_world wi0 m r)).
             v < vocab_size (setup_world wi0 m r)) \<and>
         eos_token (setup_world wi0 m r) < vocab_size (setup_world wi0 m r) \<and>
         vocabulary (snd (texts_to_sequences s w)) = vocabulary w \<and>
         vocabulary (snd (generate model sz start w)) = vocabulary w \<and>
         vocabulary (snd (generate_soft model nm sz start t w)) = vocabulary w"
proof -
  have v: "snd ` set wi0 = {1..length wi0}" by (rule values_cover [OF ok])
  have a: "wi0 \<noteq> [] \<longrightarrow> eos_token (setup_world wi0 m r) = Max (snd ` set wi0) + 1"
    using max_value [OF ok] by (simp add: setup_world_simps)
  have b: "eos_token (setup_world wi0 m r) \<notin> snd ` set wi0"
    by (simp add: v setup_world_simps)
  have c: "vocab_size (setup_world wi0 m r) = eos_token (setup_world wi0 m r) + 1"
    by (simp add: setup_world_simps)
  have "snd ` set (word_index (setup_world wi0 m r)) = insert (length wi0 + 1) {1..length wi0}"
    using v by (simp add: word_index_setup [OF ok])
  then have d: "\<forall>v \<in> snd ` set (word_index (setup_world wi0 m r)).
                  v < vocab_size (setup_world wi0 m r)"
    by (auto simp: setup_world_simps)
  have e: "eos_token (setup_world wi0 m r) < vocab_size (setup_world wi0 m r)"
    by (simp add: setup_world_simps)
  have f: "vocabulary (snd (generate model sz start w)) = vocabulary w"
    by (simp add: generate_world generate_chars_vocabulary)
  have g: "vocabulary (snd (generate_soft model nm sz start t w)) = vocabulary w"
    by (simp add: generate_soft_world generate_soft_chars_vocabulary)
  from a b c d e f g texts_to_sequences_vocabulary [of s w] show ?thesis by blast
qed

theorem vocabulary_invariant_witness:
  "char_index_ok abc_index \<and> abc_index \<noteq> [] \<and>
   eos_token (setup_world abc_index () ()) = Max (snd ` set abc_index) + 1 \<and>
   eos_token (setup_world abc_index () ()) = 4 \<and>
   vocab_size (setup_world abc_index () ()) = 5 \<and>
   3 \<in> snd ` set (word_index (setup_world abc_index () ())) \<and>
   3 < vocab_size (setup_world abc_index () ())"
proof -
  have ok: "char_index_ok abc_index" by (simp add: char_index_ok_def abc_index_def)
  have ne: "abc_index \<noteq> []" by (simp add: abc_index_def)
  have e: "eos_token (setup_world abc_index () ()) = 4"
    by (simp add: setup_world_simps abc_index_def)
  have m: "3 \<in> snd ` set (word_index (setup_world abc_index () ()))"
    by (simp add: word_index_setup [OF ok]) (simp add: abc_index_def)
  note t = vocabulary_invariant [OF ok, of "()" "()"]
  from t ne have a: "eos_token (setup_world abc_index () ()) = Max (snd ` set abc_index) + 1"
    by blast
  from t have "vocab_size (setup_world abc_index () ()) =
               eos_token (setup_world abc_index () ()) + 1" by blast
  with e have b: "vocab_size (setup_world abc_index () ()) = 5" by simp
  from t m have c: "3 < vocab_size (setup_world abc_index () ())" by blast
  from ok ne a e b m c show ?thesis by blast
qed

section \<open>Calls that run no iteration\<close>

lemma generate_soft_zero:
  "fst (generate_soft model nm 0 start t w) =
   Inr (decode w (encode_chars (word_index w) start))"
  by (simp add: generate_soft_text generate_soft_chars_def texts_to_sequences_def alloc_def)

lemma generate_zero:
  "fst (generate model 0 start w) = Inr (decode w (encode_chars (word_index w) start))"
  by (simp add: generate_text generate_chars_def texts_to_sequences_def alloc_def)

section \<open>The numeric lines at temperature zero\<close>

lemma rescale_zero_entries:
  "set (rescale_np out 0) \<subseteq> {Fin 0, NaN, PInf}"
proof
  fix x assume "x \<in> set (rescale_np out 0)"
  then obtain p where x: "x = fl_exp (fl_divide (fl_log p) (Fin 0))"
    by (auto simp: rescale_np_def)
  consider "p < 0" | "p = 0" | "0 < p" "ln p < 0" | "0 < p" "ln p = 0" | "0 < p" "0 < ln p"
    by linarith
  then show "x \<in> {Fin 0, NaN, PInf}"
    by cases (simp_all add: x fl_log_def)
qed

lemma sum_special:
  "acc \<in> {Fin 0, NaN, PInf} \<Longrightarrow> set v \<subseteq> {Fin 0, NaN, PInf} \<Longrightarrow>
   foldl fl_add acc v \<in> {Fin 0, NaN, PInf}"
proof (induction v arbitrary: acc)
  case Nil
  then show ?case by simp
next
  case (Cons x v)
  from Cons.prems have "fl_add acc x \<in> {Fin 0, NaN, PInf}" by auto
  with Cons show ?case by simp
qed

lemma sum_PInf:
  "acc \<in> {Fin 0, NaN, PInf} \<Longrightarrow> set v \<subseteq> {Fin 0, NaN, PInf} \<Longrightarrow>
   foldl fl_add acc v = PInf \<Longrightarrow> acc = PInf \<or> PInf \<in> set v"
proof (induction v arbitrary: acc)
  case Nil
  then show ?case by simp
next
  case (Cons x v)
  from Cons.prems have s: "fl_add acc x \<in> {Fin 0, NaN, PInf}" by auto
  from Cons.prems have "foldl fl_add (fl_add acc x) v = PInf" by simp
  from Cons.IH [OF s _ this] Cons.prems(2) have "fl_add acc x = PInf \<or> PInf \<in> set v" by simp
  moreover have "fl_add acc x = PInf \<Longrightarrow> acc = PInf \<or> x = PInf"
    using Cons.prems(1,2) by auto
  ultimately show ?case by auto
qed

lemma divide_special_rejected:
  assumes ne: "v \<noteq> []" and sp: "set v \<subseteq> {Fin 0, NaN, PInf}"
  shows "\<not> list_all in_unit (divide_np v (sum_np v))"
proof -
  have s: "sum_np v \<in> {Fin 0, NaN, PInf}"
    unfolding sum_np_def using sp by (intro sum_special) simp_all
  have "\<exists>x \<in> set v. \<not> in_unit (fl_divide x (sum_np v))"
  proof (cases "sum_np v = PInf")
    case True
    then have "PInf \<in> set v"
      using sum_PInf [of "Fin 0" v] sp by (simp add: sum_np_def)
    with True show ?thesis by force
  next
    case False
    from ne obtain x where x: "x \<in> set v" by (cases v) auto
    with sp have "x \<in> {Fin 0, NaN, PInf}" by blast
    with s False have "\<not> in_unit (fl_divide x (sum_np v))" by auto
    with x show ?thesis by blast
  qed
  then show ?thesis by (auto simp: divide_np_def list_all_iff)
qed

lemma draw_np_zero_temperature:
  "draw_np pick r (divide_np (rescale_np out 0) (sum_np (rescale_np out 0))) = (None, r)"
proof (cases "rescale_np out 0 = []")
  case True
  then show ?thesis by (simp add: draw_np_def divide_np_def)
next
  case False
  from divide_special_rejected [OF False rescale_zero_entries]
  show ?thesis by (simp add: draw_np_def)
qed

lemma sample_next_zero_temperature:
  "sample_next (np_numerics pick) out 0 w = (Inl SamplingFailure, w\<lparr> rng_state := rng_state w \<rparr>)"
  by (simp add: sample_next_def numerics_fields draw_np_zero_temperature)

lemma predict_last_answers:
  assumes "never_raises model"
  shows "\<exists>out w1. predict_last model inp w = (Inr out, w1)"
proof -
  from assms obtain b bs m' where
    "model (model_state w) (expand_dims (one_hot (heap w inp) (vocab_size w))) =
       (Some (b # bs), m')" "b \<noteq> []"
    unfolding never_raises_def by blast
  then show ?thesis by (simp add: predict_last_def)
qed

lemma generate_soft_zero_temperature:
  assumes "never_raises model"
  shows "fst (generate_soft model (np_numerics pick) (Suc n) start 0 w) = Inl SamplingFailure"
proof -
  obtain a w0 where e: "texts_to_sequences start w = (a, w0)" by force
  from predict_last_answers [OF assms] obtain out w1 where
    p: "predict_last model a w0 = (Inr out, w1)" by blast
  from p have "generate_soft_loop model (np_numerics pick) 0 (Suc n) a a w0 =
               (Inl SamplingFailure, w1\<lparr> rng_state := rng_state w1 \<rparr>)"
    by (simp add: sample_next_zero_temperature)
  with e have "fst (generate_soft_chars model (np_numerics pick) (Suc n) start 0 w) =
               Inl SamplingFailure"
    by (simp add: generate_soft_chars_def)
  then show ?thesis by (simp add: generate_soft_text)
qed

section \<open>The temperature\<close>

text \<open>
  Claim C6, amended. \<^verbatim>\<open>generate_soft\<close> does not look at the temperature before
  using it. With \<^verbatim>\<open>size\<close> zero it returns the decoded seed for every temperature
  and whatever the numeric operations do. With temperature zero, a positive
  \<^verbatim>\<open>size\<close> and a predictor that answers, the rescaling, the sum and the division
  are carried out on the first distribution, whatever it is; the array they give is
  empty or holds an entry that is no probability, and the call fails with the error of
  the multinomial draw. A negative temperature is used like any other: at temperature
  \<open>-1\<close> the uniform distribution is rescaled, renormalised and drawn from, and the
  call returns a text.
\<close>

theorem generate_soft_temperature_unchecked:
  "fst (generate_soft model nm 0 start t w) =
     Inr (decode w (encode_chars (word_index w) start)) \<and>
   (never_raises model \<longrightarrow>
      fst (generate_soft model (np_numerics pick) (Suc n) start 0 w) = Inl SamplingFailure) \<and>
   fst (generate_soft (pure_model uniform_stub) (np_numerics (pick_index 2)) 2 ''a'' (- 1)
          (setup_world abc_index () ())) = Inr ''abb''"
proof (intro conjI impI)
  show "fst (generate_soft model nm 0 start t w) =
        Inr (decode w (encode_chars (word_index w) start))"
    by (rule generate_soft_zero)
next
  assume "never_raises model"
  then show "fst (generate_soft model (np_numerics pick) (Suc n) start 0 w) =
             Inl SamplingFailure"
    by (rule generate_soft_zero_temperature)
next
  show "fst (generate_soft (pure_model uniform_stub) (np_numerics (pick_index 2)) 2 ''a'' (- 1)
          (setup_world abc_index () ())) = Inr ''abb''"
    by (simp add: np_defs run_defs uniform_stub_def pick_index_def exp_minus)
qed

text \<open>
  The claim C6 asks for a failure at every temperature that is zero or negative, for
  every \<^verbatim>\<open>size\<close>. At temperature zero with \<^verbatim>\<open>size=0\<close> the loop body never
  runs and the call returns the seed; at temperature \<open>-1\<close> with \<^verbatim>\<open>size=2\<close> and
  a predictor that answers with the uniform distribution, two tokens are drawn and the
  call returns a text.
\<close>

theorem generate_soft_zero_temperature_counterexample:
  "fst (generate_soft cycle_stub (np_numerics first_positive) 0 ''a'' 0 abc_world) = Inr ''a'' \<and>
   fst (generate_soft (pure_model uniform_stub) (np_numerics (pick_index 2)) 2 ''a'' (- 1)
          (setup_world abc_index () ())) = Inr ''abb''"
  by (simp add: np_defs run_defs uniform_stub_def pick_index_def exp_minus)

lemma cycle_stub_never_raises: "never_raises cycle_stub"
  by (simp add: never_raises_def cycle_stub_def one_hot_def)

theorem generate_soft_temperature_unchecked_witness:
  "never_raises cycle_stub \<and>
   fst (generate_soft cycle_stub (np_numerics first_positive) 3 ''a'' 0 abc_world) =
     Inl SamplingFailure \<and>
   fst (generate_soft cycle_stub (np_numerics first_positive) 0 ''a'' 0 abc_world) =
     Inr (decode abc_world (encode_chars (word_index abc_world) ''a''))"
proof -
  note t = generate_soft_temperature_unchecked
    [where model = cycle_stub and nm = "np_numerics first_positive" and start = "''a''"
       and t = 0 and w = abc_world and pick = first_positive and n = 2]
  from t cycle_stub_never_raises
  have f: "fst (generate_soft cycle_stub (np_numerics first_positive) (Suc 2) ''a'' 0 abc_world) =
           Inl SamplingFailure" by blast
  have "Suc 2 = 3" by simp
  with f have g: "fst (generate_soft cycle_stub (np_numerics first_positive) 3 ''a'' 0 abc_world) =
           Inl SamplingFailure" by simp
  from t have z: "fst (generate_soft cycle_stub (np_numerics first_positive) 0 ''a'' 0 abc_world) =
     Inr (decode abc_world (encode_chars (word_index abc_world) ''a''))" by blast
  from cycle_stub_never_raises g z show ?thesis by (intro conjI)
qed

section \<open>The sum of the rescaled distribution\<close>




section \<open>A seed that encodes to no token\<close>

lemma one_hot_Nil: "expand_dims (one_hot [] d) = [[]]"
  by (simp add: one_hot_def expand_dims_def)

text \<open>
  Claim C7, amended. \<^verbatim>\<open>generate\<close> does not check the encoded seed. When the seed
  encodes to no token: with \<^verbatim>\<open>size\<close> zero the call returns the empty string;
  with a positive \<^verbatim>\<open>size\<close> the predictor is queried first, with the empty
  sequence, and the call fails only after that query: with the predictor's own failure
  if it raises, with an index error if it returns no batch entry or no position.
\<close>

theorem generate_empty_seed:
  assumes e: "encode_chars (word_index w) start = []"
      and q: "model (model_state w) [[]] = (res, m')"
  shows "fst (generate model 0 start w) = Inr '''' \<and>
         (res = None \<longrightarrow>
            fst (generate model (Suc n) start w) = Inl PredictorFailure \<and>
            model_state (snd (generate model (Suc n) start w)) = m') \<and>
         (res = Some [] \<or> (\<exists>bs. res = Some ([] # bs)) \<longrightarrow>
            fst (generate model (Suc n) start w) = Inl IndexError \<and>
            model_state (snd (generate model (Suc n) start w)) = m')"
proof -
  have z: "fst (generate model 0 start w) = Inr ''''"
    by (simp add: generate_zero e decode_Nil)
  obtain a w0 where t: "texts_to_sequences start w = (a, w0)" by force
  then have al: "alloc [] w = (a, w0)" by (simp add: texts_to_sequences_def e)
  note af = alloc_frame [OF al]
  from af q have q0: "model (model_state w0) (expand_dims (one_hot (heap w0 a) (vocab_size w0)))
                      = (res, m')"
    by (simp add: one_hot_Nil)
  have n: "generate model (Suc n) start w = (Inl PredictorFailure, w0\<lparr> model_state := m' \<rparr>)"
    if "res = None"
    using that t q0 by (simp add: generate_def generate_chars_def predict_last_def)
  have i: "generate model (Suc n) start w = (Inl IndexError, w0\<lparr> model_state := m' \<rparr>)"
    if "res = Some [] \<or> (\<exists>bs. res = Some ([] # bs))"
    using that t q0 by (auto simp: generate_def generate_chars_def predict_last_def)
  from z n i show ?thesis by simp
qed

text \<open>
  The claim C7 asks for a failure before any predictor query. A predictor that answers
  on the empty sequence is queried four times and the call returns a text, for the empty
  seed and for a seed without any vocabulary character.
\<close>

theorem generate_empty_seed_counterexample:
  "fst (generate cycle_stub 0 '''' abc_world) = Inr '''' \<and>
   fst (generate cycle_stub 5 '''' abc_world) = Inr ''abc'' \<and>
   model_state (snd (generate cycle_stub 5 '''' abc_world)) = 4 \<and>
   fst (generate cycle_stub 5 ''xyz'' abc_world) = Inr ''abc''"
  by code_simp

theorem generate_empty_seed_witness:
  "encode_chars (word_index abc_world) ''xyz'' = [] \<and>
   fst (generate (pure_model (\<lambda>x. None)) 0 ''xyz'' abc_world) = Inr '''' \<and>
   fst (generate (pure_model (\<lambda>x. None)) 3 ''xyz'' abc_world) = Inl PredictorFailure \<and>
   fst (generate (pure_model (\<lambda>x. Some [])) 3 ''xyz'' abc_world) = Inl IndexError"
proof -
  have e: "encode_chars (word_index abc_world) ''xyz'' = []" by code_simp
  have q1: "pure_model (\<lambda>x. None) (model_state abc_world) [[]] = (None, model_state abc_world)"
    by (simp add: pure_model_def)
  have q2: "pure_model (\<lambda>x. Some []) (model_state abc_world) [[]] = (Some [], model_state abc_world)"
    by (simp add: pure_model_def)
  note t1 = generate_empty_seed [where model = "pure_model (\<lambda>x. None)" and w = abc_world
      and start = "''xyz''" and n = 2, OF e q1]
  note t2 = generate_empty_seed [where model = "pure_model (\<lambda>x. Some [])" and w = abc_world
      and start = "''xyz''" and n = 2, OF e q2]
  from t1 t2 e show ?thesis by (simp add: numeral_3_eq_3)
qed

section \<open>The largest entry\<close>

lemma argmax_from_spec:
  assumes "length pre = i" "best < i" "pre ! best = v"
      and "\<forall>j<i. pre ! j \<le> v" "\<forall>j<best. pre ! j < v"
  shows "argmax_from xs i best v < length (pre @ xs) \<and>
         (\<forall>j<length (pre @ xs). (pre @ xs) ! j \<le> (pre @ xs) ! argmax_from xs i best v) \<and>
         (\<forall>j<argmax_from xs i best v. (pre @ xs) ! j < (pre @ xs) ! argmax_from xs i best v)"
  using assms
proof (induction xs arbitrary: pre i best v)
  case Nil
  then show ?case by simp
next
  case (Cons x xs)
  show ?case
  proof (cases "v < x")
    case True
    have "argmax_from xs (Suc i) i x < length ((pre @ [x]) @ xs) \<and>
         (\<forall>j<length ((pre @ [x]) @ xs).
             ((pre @ [x]) @ xs) ! j \<le> ((pre @ [x]) @ xs) ! argmax_from xs (Suc i) i x) \<and>
         (\<forall>j<argmax_from xs (Suc i) i x.
             ((pre @ [x]) @ xs) ! j < ((pre @ [x]) @ xs) ! argmax_from xs (Suc i) i x)"
    proof (rule Cons.IH)
      show "length (pre @ [x]) = Suc i" using Cons.prems by simp
      show "i < Suc i" by simp
      show "(pre @ [x]) ! i = x" using Cons.prems(1) by (simp add: nth_append)
      show "\<forall>j<Suc i. (pre @ [x]) ! j \<le> x"
        using Cons.prems True by (auto simp: nth_append less_Suc_eq intro: less_imp_le order_trans)
      show "\<forall>j<i. (pre @ [x]) ! j < x"
        using Cons.prems True by (auto simp: nth_append intro: le_less_trans)
    qed
    with True show ?thesis by simp
  next
    case False
    have "argmax_from xs (Suc i) best v < length ((pre @ [x]) @ xs) \<and>
         (\<forall>j<length ((pre @ [x]) @ xs).
             ((pre @ [x]) @ xs) ! j \<le> ((pre @ [x]) @ xs) ! argmax_from xs (Suc i) best v) \<and>
         (\<forall>j<argmax_from xs (Suc i) best v.
             ((pre @ [x]) @ xs) ! j < ((pre @ [x]) @ xs) ! argmax_from xs (Suc i) best v)"
    proof (rule Cons.IH)
      show "length (pre @ [x]) = Suc i" using Cons.prems by simp
      show "best < Suc i" using Cons.prems by simp
      show "(pre @ [x]) ! best = v" using Cons.prems by (simp add: nth_append)
      show "\<forall>j<Suc i. (pre @ [x]) ! j \<le> v"
        using Cons.prems False by (auto simp: nth_append less_Suc_eq)
      show "\<forall>j<best. (pre @ [x]) ! j < v"
        using Cons.prems by (auto simp: nth_append)
    qed
    with False show ?thesis by simp
  qed
qed

lemma argmax_lowest:
  assumes "argmax out = Some i"
  shows "i < length out \<and> (\<forall>j<length out. out ! j \<le> out ! i) \<and> (\<forall>j<i. out ! j < out ! i)"
proof (cases out)
  case Nil
  with assms show ?thesis by (simp add: argmax_def)
next
  case (Cons x xs)
  with assms have i: "i = argmax_from xs 1 0 x" by (simp add: argmax_def)
  have "argmax_from xs 1 0 x < length ([x] @ xs) \<and>
        (\<forall>j<length ([x] @ xs). ([x] @ xs) ! j \<le> ([x] @ xs) ! argmax_from xs 1 0 x) \<and>
        (\<forall>j<argmax_from xs 1 0 x. ([x] @ xs) ! j < ([x] @ xs) ! argmax_from xs 1 0 x)"
    by (rule argmax_from_spec) simp_all
  with i Cons show ?thesis by simp
qed

section \<open>A predictor that is a function of its input\<close>

lemma predict_last_pure:
  assumes "heap w inp = heap v inp'" "vocab_size w = vocab_size v"
  shows "fst (predict_last (pure_model f) inp w) = fst (predict_last (pure_model f) inp' v)"
  using assms by (simp add: predict_last_def pure_model_def split: option.splits list.splits)

lemma generate_loop_pure_sim:
  assumes "vocabulary w = vocabulary v"
      and "heap w inp = heap v inp'" "heap w chars = heap v chars'"
      and "inp = chars \<longleftrightarrow> inp' = chars'"
      and "chars < next_addr w" "chars' < next_addr v"
      and "generate_loop (pure_model f) n inp chars w = (r, w1)"
      and "generate_loop (pure_model f) n inp' chars' v = (r', v1)"
  shows "map_sum id (\<lambda>_. ()) r = map_sum id (\<lambda>_. ()) r' \<and> heap w1 chars = heap v1 chars'"
  using assms
proof (induction n arbitrary: inp inp' w v)
  case 0
  then show ?case by auto
next
  case (Suc n)
  obtain r1 wa where p: "predict_last (pure_model f) inp w = (r1, wa)" by force
  obtain r1' va where p': "predict_last (pure_model f) inp' v = (r1', va)" by force
  note fw = predict_last_frame [OF p] and fv = predict_last_frame [OF p']
  from Suc.prems(1) have vs: "vocab_size w = vocab_size v" and eos: "eos_token w = eos_token v"
    by (simp_all add: vocabulary_def)
  from predict_last_pure [OF Suc.prems(2) vs, of f] p p' have r1: "r1' = r1" by simp
  show ?case
  proof (cases r1)
    case (Inl e)
    with Suc.prems p p' r1 fw fv show ?thesis by auto
  next
    case (Inr out)
    show ?thesis
    proof (cases "argmax out")
      case None
      with Suc.prems p p' r1 fw fv Inr show ?thesis by auto
    next
      case (Some nc)
      show ?thesis
      proof (cases "nc = eos_token w")
        case True
        with Suc.prems p p' r1 fw fv Inr Some eos show ?thesis by auto
      next
        case False
        obtain i2 w2 where a: "advance inp chars nc wa = (i2, w2)" by force
        obtain i2' v2 where a': "advance inp' chars' nc va = (i2', v2)" by force
        from Suc.prems(7) p Inr Some False a fw(5)
        have run: "generate_loop (pure_model f) n i2 chars w2 = (r, w1)" by simp
        from Suc.prems(8) p' r1 Inr Some False a' fv(5) eos
        have run': "generate_loop (pure_model f) n i2' chars' v2 = (r', v1)" by simp
        have voc: "vocabulary w2 = vocabulary v2"
          using advance_frame(3) [OF a] advance_frame(3) [OF a'] fw(3) fv(3) Suc.prems(1)
          by simp
        have hi: "heap w2 i2 = heap v2 i2'"
          using advance_inp [OF a] advance_inp [OF a'] fw(1) fv(1) Suc.prems(2,4) by simp
        have hc: "heap w2 chars = heap v2 chars'"
          using advance_chars [OF a] advance_chars [OF a'] fw(1,2) fv(1,2) Suc.prems(3,5,6)
          by simp
        have al: "i2 = chars \<longleftrightarrow> i2' = chars'"
          using advance_frame(1) [OF a] advance_frame(1) [OF a'] fw(2) fv(2) Suc.prems(5,6)
          by simp
        have lt: "chars < next_addr w2" "chars' < next_addr v2"
          using advance_frame(2) [OF a] advance_frame(2) [OF a'] fw(2) fv(2) Suc.prems(5,6)
          by simp_all
        from Suc.IH [OF voc hi hc al lt run run'] show ?thesis .
      qed
    qed
  qed
qed

lemma generate_chars_pure:
  assumes voc: "vocabulary w = vocabulary v"
  shows "fst (generate_chars (pure_model f) sz start w) =
         fst (generate_chars (pure_model f) sz start v)"
proof -
  from voc have wi: "word_index w = word_index v" by (simp add: vocabulary_def)
  obtain a w0 where t: "texts_to_sequences start w = (a, w0)" by force
  obtain b v0 where u: "texts_to_sequences start v = (b, v0)" by force
  from t have al: "alloc (encode_chars (word_index w) start) w = (a, w0)"
    by (simp add: texts_to_sequences_def)
  from u have bl: "alloc (encode_chars (word_index v) start) v = (b, v0)"
    by (simp add: texts_to_sequences_def)
  note af = alloc_frame [OF al] and bf = alloc_frame [OF bl]
  obtain r w1 where l: "generate_loop (pure_model f) sz a a w0 = (r, w1)" by force
  obtain r' v1 where l': "generate_loop (pure_model f) sz b b v0 = (r', v1)" by force
  have v0: "vocabulary w0 = vocabulary v0" using af(4) bf(4) voc by simp
  have h: "heap w0 a = heap v0 b" using af(3) bf(3) wi by simp
  have lt: "a < next_addr w0" "b < next_addr v0" using af(1,2) bf(1,2) by simp_all
  have same: "a = a \<longleftrightarrow> b = b" by simp
  from generate_loop_pure_sim [OF v0 h h same lt l l']
  have s: "map_sum id (\<lambda>_. ()) r = map_sum id (\<lambda>_. ()) r'" "heap w1 a = heap v1 b"
    by simp_all
  from generate_loop_chars [OF l lt(1)] have c: "\<forall>i c. r = Inr (i, c) \<longrightarrow> c = a" by blast
  from generate_loop_chars [OF l' lt(2)] have c': "\<forall>i c. r' = Inr (i, c) \<longrightarrow> c = b" by blast
  show ?thesis
  proof (cases r)
    case (Inl e)
    with s(1) have "r' = Inl e" by (cases r') simp_all
    with Inl t u l l' show ?thesis by (simp add: generate_chars_def)
  next
    case (Inr fr)
    with s(1) obtain fr' where r': "r' = Inr fr'" by (cases r') simp_all
    from Inr c have "snd fr = a" by (cases fr) simp
    moreover from r' c' have "snd fr' = b" by (cases fr') simp
    ultimately show ?thesis using Inr r' t u l l' s(2)
      by (cases fr; cases fr') (simp add: generate_chars_def)
  qed
qed

lemma generate_pure:
  assumes voc: "vocabulary w = vocabulary v"
  shows "fst (generate (pure_model f) sz start w) = fst (generate (pure_model f) sz start v)"
proof -
  from voc have "decode w = decode v" by (rule vocabulary_decode)
  with generate_chars_pure [OF voc, of f sz start] show ?thesis
    by (simp add: generate_text)
qed

text \<open>
  Claim C4. With a predictor that is a function of the sequence it is shown,
  \<^verbatim>\<open>generate\<close> returns the same result (text or exception) from any two states
  of the notebook with the same vocabulary, whatever lists earlier calls have
  allocated and whatever the states of the model object and the random generator; in
  particular a second call, made in the state the first call left, returns what the
  first returned. The index \<^verbatim>\<open>argmax\<close> selects is that of a largest entry, and
  every entry before it is strictly smaller: ties go to the lowest index.
\<close>

theorem greedy_deterministic:
  "(vocabulary w = vocabulary v \<longrightarrow>
      fst (generate (pure_model f) sz start w) = fst (generate (pure_model f) sz start v)) \<and>
   fst (generate (pure_model f) sz start (snd (generate (pure_model f) sz start w))) =
     fst (generate (pure_model f) sz start w) \<and>
   (argmax out = Some i \<longrightarrow>
      i < length out \<and> (\<forall>j<length out. out ! j \<le> out ! i) \<and> (\<forall>j<i. out ! j < out ! i))"
proof (intro conjI impI)
  assume "vocabulary w = vocabulary v"
  then show "fst (generate (pure_model f) sz start w) = fst (generate (pure_model f) sz start v)"
    by (rule generate_pure)
next
  have "vocabulary (snd (generate (pure_model f) sz start w)) = vocabulary w"
    by (simp add: generate_world generate_chars_vocabulary)
  then show "fst (generate (pure_model f) sz start (snd (generate (pure_model f) sz start w))) =
             fst (generate (pure_model f) sz start w)"
    by (rule generate_pure)
next
  assume a: "argmax out = Some i"
  from argmax_lowest [OF a] show "i < length out" by blast
  from argmax_lowest [OF a] show "\<forall>j<length out. out ! j \<le> out ! i" by blast
  from argmax_lowest [OF a] show "\<forall>j<i. out ! j < out ! i" by blast
qed

theorem greedy_deterministic_witness:
  "vocabulary (setup_world abc_index () ()) =
     vocabulary (snd (texts_to_sequences ''cc'' (setup_world abc_index () ()))) \<and>
   fst (generate (pure_model successor_stub) 5 ''a'' (setup_world abc_index () ())) =
     fst (generate (pure_model successor_stub) 5 ''a''
            (snd (texts_to_sequences ''cc'' (setup_world abc_index () ())))) \<and>
   fst (generate (pure_model successor_stub) 5 ''a'' (setup_world abc_index () ())) = Inr ''abc'' \<and>
   argmax [0, 1, 1, 0] = Some 1 \<and>
   [0, 1, 1, 0 :: real] ! 0 < [0, 1, 1, 0] ! 1 \<and>
   [0, 1, 1, 0 :: real] ! 2 \<le> [0, 1, 1, 0] ! 1"
proof -
  have v: "vocabulary (setup_world abc_index () ()) =
           vocabulary (snd (texts_to_sequences ''cc'' (setup_world abc_index () ())))"
    by (simp add: texts_to_sequences_vocabulary)
  have a: "argmax [0, 1, 1, 0] = Some 1" by (simp add: argmax_def)
  have g: "fst (generate (pure_model successor_stub) 5 ''a'' (setup_world abc_index () ()))
           = Inr ''abc''"
    by code_simp
  note t = greedy_deterministic [where w = "setup_world abc_index () ()"
      and v = "snd (texts_to_sequences ''cc'' (setup_world abc_index () ()))"
      and f = successor_stub and sz = 5 and start = "''a''" and out = "[0, 1, 1, 0]" and i = 1]
  from t v have d: "fst (generate (pure_model successor_stub) 5 ''a'' (setup_world abc_index () ())) =
     fst (generate (pure_model successor_stub) 5 ''a''
            (snd (texts_to_sequences ''cc'' (setup_world abc_index () ()))))"
    by blast
  from t a have "\<forall>j<1. [0, 1, 1, 0 :: real] ! j < [0, 1, 1, 0] ! 1" by blast
  then have l: "[0, 1, 1, 0 :: real] ! 0 < [0, 1, 1, 0] ! 1" by simp
  from t a have "\<forall>j<length [0, 1, 1, 0 :: real]. [0, 1, 1, 0 :: real] ! j \<le> [0, 1, 1, 0] ! 1"
    by blast
  then have u: "[0, 1, 1, 0 :: real] ! 2 \<le> [0, 1, 1, 0] ! 1" by simp
  from v d g a l u show ?thesis by (intro conjI)
qed

section \<open>Stopping at the end-of-sequence token\<close>

lemma eos_first_from_run:
  "eos_first_from model k inp chars w \<Longrightarrow> chars < next_addr w \<Longrightarrow> k \<le> sz \<Longrightarrow>
   \<exists>i w' ext. generate_loop model sz inp chars w = (Inr (i, chars), w') \<and>
     heap w' chars = heap w chars @ ext \<and> length ext = k - 1 \<and> eos_token w \<notin> set ext"
proof (induction k arbitrary: inp w sz)
  case 0
  then show ?case by simp
next
  case (Suc j)
  from Suc.prems(3) obtain n where sz: "sz = Suc n" by (cases sz) simp_all
  obtain r1 wa where p: "predict_last model inp w = (r1, wa)" by force
  note f = predict_last_frame [OF p]
  from Suc.prems(1) p obtain out where r1: "r1 = Inr out" by (cases r1) simp_all
  from Suc.prems(1) p r1 obtain nc where am: "argmax out = Some nc"
    by (cases "argmax out") simp_all
  show ?case
  proof (cases "j = 0")
    case True
    with Suc.prems(1) p r1 am have "nc = eos_token wa" by simp
    with p r1 am sz have "generate_loop model sz inp chars w = (Inr (inp, chars), wa)" by simp
    with f(1) True show ?thesis by simp
  next
    case False
    obtain i2 w2 where a: "advance inp chars nc wa = (i2, w2)" by force
    from Suc.prems(1) p r1 am False a
    have ne: "nc \<noteq> eos_token wa" and rest: "eos_first_from model j i2 chars w2" by simp_all
    have lt: "chars < next_addr w2"
      using advance_frame(2) [OF a] f(2) Suc.prems(2) by simp
    from Suc.prems(3) sz have le: "j \<le> n" by simp
    from Suc.IH [OF rest lt le] obtain i w' ext where
      run: "generate_loop model n i2 chars w2 = (Inr (i, chars), w')" and
      ext: "heap w' chars = heap w2 chars @ ext" "length ext = j - 1"
           "eos_token w2 \<notin> set ext" by blast
    have h2: "heap w2 chars = heap w chars @ [nc]"
      using advance_chars [OF a] f(1,2) Suc.prems(2) by simp
    have e2: "eos_token w2 = eos_token w" "eos_token wa = eos_token w"
      using advance_frame(4) [OF a] f(5) by simp_all
    from p r1 am ne a run sz
    have whole: "generate_loop model sz inp chars w = (Inr (i, chars), w')" by simp
    have "heap w' chars = heap w chars @ (nc # ext) \<and> length (nc # ext) = Suc j - 1 \<and>
          eos_token w \<notin> set (nc # ext)"
      using ext h2 e2 ne False by auto
    with whole show ?thesis by blast
  qed
qed

lemma encode_chars_values:
  "set (encode_chars wi s) \<subseteq> snd ` {kv \<in> set wi. length (fst kv) = 1}"
proof (induction s)
  case Nil
  show ?case by (simp add: encode_chars_Nil)
next
  case (Cons c cs)
  show ?case
  proof (cases "map_of wi [c]")
    case None
    with Cons show ?thesis by (simp add: encode_chars_Cons)
  next
    case (Some i)
    then have "([c], i) \<in> set wi" by (rule map_of_SomeD)
    then have "i \<in> snd ` {kv \<in> set wi. length (fst kv) = 1}" by force
    with Cons Some show ?thesis by (simp add: encode_chars_Cons)
  qed
qed

lemma eos_not_encoded:
  assumes ok: "char_index_ok wi0"
      and voc: "vocabulary w = vocabulary (setup_world wi0 (model_state w) (rng_state w))"
  shows "eos_token w \<notin> set (encode_chars (word_index w) start)"
proof
  assume "eos_token w \<in> set (encode_chars (word_index w) start)"
  with encode_chars_values [of "word_index w" start]
  obtain k where k: "(k, eos_token w) \<in> set (word_index w)" "length k = 1" by force
  from voc have wi: "word_index w = wi0 @ [(''<eos>'', length wi0 + 1)]"
    and e: "eos_token w = length wi0 + 1"
    by (simp_all add: vocabulary_def word_index_setup [OF ok] setup_world_simps)
  from k wi have "(k, eos_token w) \<in> set wi0" by auto
  then have "eos_token w \<in> snd ` set wi0" by force
  with values_cover [OF ok] e show False by simp
qed

text \<open>
  Claim C5. Take a vocabulary built by the notebook, a call of \<^verbatim>\<open>generate\<close> and
  a step \<open>k\<close> within \<^verbatim>\<open>size\<close>. If the distribution the predictor returns at
  step \<open>k\<close> has the end-of-sequence index as its \<^verbatim>\<open>argmax\<close>, and the
  distributions it returns at the steps before have another \<^verbatim>\<open>argmax\<close>, then the
  call returns, the sequence it decodes is the encoded seed followed by exactly
  \<open>k - 1\<close> generated tokens, and the end-of-sequence index is not in that sequence, so
  that the text has no end-of-sequence marker decoded into it.
\<close>

theorem greedy_stops_at_eos:
  assumes ok: "char_index_ok wi0"
      and voc: "vocabulary w = vocabulary (setup_world wi0 (model_state w) (rng_state w))"
      and first: "eos_first_at model start k w"
      and le: "k \<le> sz"
  shows "\<exists>ext. length ext = k - 1 \<and>
           fst (generate_chars model sz start w) =
             Inr (encode_chars (word_index w) start @ ext) \<and>
           fst (generate model sz start w) =
             Inr (decode w (encode_chars (word_index w) start @ ext)) \<and>
           eos_token w \<notin> set (encode_chars (word_index w) start @ ext)"
proof -
  obtain a w0 where t: "texts_to_sequences start w = (a, w0)" by force
  then have al: "alloc (encode_chars (word_index w) start) w = (a, w0)"
    by (simp add: texts_to_sequences_def)
  note af = alloc_frame [OF al]
  from af have lt: "a < next_addr w0" by simp
  from first t have "eos_first_from model k a a w0" by (simp add: eos_first_at_def)
  from eos_first_from_run [OF this lt le] obtain i w' ext where
    run: "generate_loop model sz a a w0 = (Inr (i, a), w')" and
    ext: "heap w' a = heap w0 a @ ext" "length ext = k - 1" "eos_token w0 \<notin> set ext"
    by blast
  from run t have "fst (generate_chars model sz start w) = Inr (heap w' a)"
    by (simp add: generate_chars_def)
  with ext(1) af(3)
  have g: "fst (generate_chars model sz start w) =
           Inr (encode_chars (word_index w) start @ ext)" by simp
  then have d: "fst (generate model sz start w) =
                Inr (decode w (encode_chars (word_index w) start @ ext))"
    by (simp add: generate_text)
  from ext(3) af(5) eos_not_encoded [OF ok voc, of start]
  have "eos_token w \<notin> set (encode_chars (word_index w) start @ ext)" by simp
  with ext(2) g d show ?thesis by blast
qed

theorem greedy_stops_at_eos_witness:
  "char_index_ok abc_index \<and>
   vocabulary abc_world =
     vocabulary (setup_world abc_index (model_state abc_world) (rng_state abc_world)) \<and>
   eos_first_at cycle_stub ''a'' 4 abc_world \<and> (4::nat) \<le> 5 \<and>
   (\<exists>ext. length ext = 4 - 1 \<and>
      fst (generate_chars cycle_stub 5 ''a'' abc_world) =
        Inr (encode_chars (word_index abc_world) ''a'' @ ext) \<and>
      fst (generate cycle_stub 5 ''a'' abc_world) =
        Inr (decode abc_world (encode_chars (word_index abc_world) ''a'' @ ext)) \<and>
      eos_token abc_world \<notin> set (encode_chars (word_index abc_world) ''a'' @ ext))"
proof -
  have ok: "char_index_ok abc_index" by (simp add: char_index_ok_def abc_index_def)
  have voc: "vocabulary abc_world =
     vocabulary (setup_world abc_index (model_state abc_world) (rng_state abc_world))"
    by (simp add: abc_world_def vocabulary_def setup_world_def Let_def)
  have first: "eos_first_at cycle_stub ''a'' 4 abc_world" by code_simp
  have le: "(4::nat) \<le> 5" by simp
  from greedy_stops_at_eos [OF ok voc first le] ok voc first le show ?thesis by (intro conjI)
qed

section \<open>The cycling stub\<close>

text \<open>
  The claim C9 expects \<^verbatim>\<open>"abc"\<close>. The stub's first answer is the first entry of
  its schedule, index \<open>1\<close>, which is appended after the seed: the call returns
  \<^verbatim>\<open>"aabc"\<close>.
\<close>

theorem cycle_stub_counterexample:
  "fst (generate cycle_stub 5 ''a'' abc_world) = Inr ''aabc'' \<and>
   fst (generate cycle_stub 5 ''a'' abc_world) \<noteq> Inr ''abc''"
  by code_simp

text \<open>
  Claim C9, amended. With the vocabulary \<^verbatim>\<open>{'a':1,'b':2,'c':3,'<eos>':4}\<close> and
  the stub that answers with the entries of \<open>[1,2,3,4]\<close> in turn, one per call,
  \<^verbatim>\<open>generate(stub, size=5, start="a")\<close> returns the seed followed by the decoding
  of \<open>[1,2,3]\<close>, that is \<^verbatim>\<open>"aabc"\<close>, and stops at the fourth call, whose
  answer is the end-of-sequence index.
\<close>

theorem cycle_stub_scenario:
  "fst (generate cycle_stub 5 ''a'' abc_world) = Inr (''a'' @ decode abc_world [1, 2, 3]) \<and>
   ''a'' @ decode abc_world [1, 2, 3] = ''aabc'' \<and>
   model_state (snd (generate cycle_stub 5 ''a'' abc_world)) = 4"
  by code_simp

text \<open>
  For comparison, a predictor that answers with the successor of the last index it
  is shown: the seed \<^verbatim>\<open>"a"\<close> is continued by \<open>[2,3]\<close> and the text is
  \<^verbatim>\<open>"abc"\<close>.
\<close>

lemma successor_stub_scenario:
  "fst (generate (pure_model successor_stub) 5 ''a'' (setup_world abc_index () ())) =
   Inr (''a'' @ decode (setup_world abc_index () ()) [2, 3]) \<and>
   ''a'' @ decode (setup_world abc_index () ()) [2, 3] = ''abc''"
  by code_simp

end
